theory Spec2Isabelle
  imports Complex_Main "HOL-Library.Multiset"
begin

section \<open>Strings as the Go code uses them\<close>

text \<open>
  Go strings are byte sequences; they are modelled as \<^typ>\<open>string\<close>. The helpers below are
  the functions of package \<^verbatim>\<open>strings\<close> and \<^verbatim>\<open>fmt\<close> that the analysed code calls.
\<close>

fun hasPrefix :: "string \<Rightarrow> string \<Rightarrow> bool" where
  "hasPrefix s [] = True"
| "hasPrefix [] (p # ps) = False"
| "hasPrefix (c # cs) (p # ps) = (c = p \<and> hasPrefix cs ps)"

fun contains :: "string \<Rightarrow> string \<Rightarrow> bool" where
  "contains [] substr = hasPrefix [] substr"
| "contains (c # cs) substr = (hasPrefix (c # cs) substr \<or> contains cs substr)"

definition trimSuffix :: "string \<Rightarrow> string \<Rightarrow> string" where
  "trimSuffix s suffix =
     (if length suffix \<le> length s \<and> drop (length s - length suffix) s = suffix
      then take (length s - length suffix) s else s)"

fun join :: "string list \<Rightarrow> string \<Rightarrow> string" where
  "join [] sep = []"
| "join [e] sep = e"
| "join (e # es) sep = e @ sep @ join es sep"

definition digitChar :: "nat \<Rightarrow> char" where
  "digitChar d = ''0123456789'' ! d"

fun natDigits :: "nat \<Rightarrow> string" where
  "natDigits n = (if n < 10 then [digitChar n] else natDigits (n div 10) @ [digitChar (n mod 10)])"

declare natDigits.simps [simp del]

definition itoa :: "int \<Rightarrow> string" where
  "itoa i = (if i < 0 then CHR ''-'' # natDigits (nat (- i)) else natDigits (nat i))"

definition toUpperChar :: "char \<Rightarrow> char" where
  "toUpperChar c =
     (if c \<in> set ''abcdefghijklmnopqrstuvwxyz''
      then ''ABCDEFGHIJKLMNOPQRSTUVWXYZ'' ! (of_char c - 97) else c)"

definition toUpper :: "string \<Rightarrow> string" where
  "toUpper s = map toUpperChar s"

text \<open>\<^verbatim>\<open>strings.Split(s, "/")\<close>: the pieces between the separators, never an empty list.\<close>

fun splitSlash :: "string \<Rightarrow> string list" where
  "splitSlash [] = [[]]"
| "splitSlash (c # cs) =
     (if c = CHR ''/'' then [] # splitSlash cs
      else (case splitSlash cs of piece # pieces \<Rightarrow> (c # piece) # pieces | [] \<Rightarrow> [[c]]))"

section \<open>Regular expressions of the CNAME table\<close>

text \<open>
  \<^verbatim>\<open>regexp.MatchString(pattern, s)\<close> reports whether \<open>s\<close> contains a match of the
  pattern anywhere. The table uses literals, character classes, \<open>+\<close> on a class and \<open>?\<close>
  on a group; the datatype covers exactly these. \<open>rests r s\<close> lists what is left of \<open>s\<close>
  after each way of matching \<open>r\<close> at its start.
\<close>

datatype regex =
    ReLit string
  | ReClass string
  | RePlusClass string
  | ReOpt regex
  | ReSeq regex regex

fun plusRests :: "string \<Rightarrow> string \<Rightarrow> string list" where
  "plusRests cls [] = []"
| "plusRests cls (c # cs) = (if c \<in> set cls then cs # plusRests cls cs else [])"

fun rests :: "regex \<Rightarrow> string \<Rightarrow> string list" where
  "rests (ReLit p) s = (if hasPrefix s p then [drop (length p) s] else [])"
| "rests (ReClass cls) s = (case s of [] \<Rightarrow> [] | c # cs \<Rightarrow> if c \<in> set cls then [cs] else [])"
| "rests (RePlusClass cls) s = plusRests cls s"
| "rests (ReOpt r) s = s # rests r s"
| "rests (ReSeq r1 r2) s = concat (map (rests r2) (rests r1 s))"

fun matchString :: "regex \<Rightarrow> string \<Rightarrow> bool" where
  "matchString pattern [] = (rests pattern [] \<noteq> [])"
| "matchString pattern (c # cs) = (rests pattern (c # cs) \<noteq> [] \<or> matchString pattern cs)"

section \<open>The network and the clock\<close>

text \<open>
  Everything outside the process is a value of type \<open>World\<close>: the answer of the HTTP
  client to a GET of a URL (\<open>None\<close> is the Go \<^verbatim>\<open>err != nil\<close>; the client never follows
  redirects and has the timeout and the user agent of the run), the answer of
  \<^verbatim>\<open>net.LookupCNAME\<close>, the clock read by \<^verbatim>\<open>time.Now()\<close>, whether
  \<^verbatim>\<open>http.NewRequest\<close> accepts a URL, and the object keys \<^verbatim>\<open>xml.Unmarshal\<close> finds in a
  bucket listing (\<open>None\<close> when the body does not parse).
\<close>

record Certificate =
  IssuerCommonName :: string
  DNSNames :: "string list"
  NotBefore :: int
  NotAfter :: int

record Response =
  respStatusCode :: int
  respContentLength :: int
  respHeader :: "(string \<times> string list) list"
  respTLS :: "Certificate list option"
  respBody :: string
  respReadError :: bool

record World =
  httpGet :: "string \<Rightarrow> Response option"
  netLookupCNAME :: "string \<Rightarrow> string option"
  timeNow :: int
  newRequestOk :: "string \<Rightarrow> bool"
  xmlContentsKeys :: "string \<Rightarrow> string list option"

datatype error = LookupError

section \<open>Package scorer\<close>

text \<open>
  The Go map \<^verbatim>\<open>cloudCnamePatterns\<close>, in the order of the source. Go iterates a map in an
  unspecified order, so the functions below take the table as the list of entries in the
  order the iteration visits them.
\<close>

definition dnsLabelClass :: string where
  "dnsLabelClass = ''abcdefghijklmnopqrstuvwxyz0123456789-''"

definition cloudCnamePatterns :: "(regex \<times> string) list" where
  "cloudCnamePatterns =
    [(ReSeq (ReLit ''s3'') (ReSeq (ReClass ''.-'')
        (ReSeq (ReOpt (ReSeq (RePlusClass dnsLabelClass) (ReLit ''.''))) (ReLit ''amazonaws.com''))),
      ''AWS-S3''),
     (ReLit ''.cloudfront.net'', ''AWS-CloudFront''),
     (ReLit ''.azure-api.net'', ''Azure-API''),
     (ReLit ''.azurewebsites.net'', ''Azure-Web''),
     (ReLit ''.blob.core.windows.net'', ''Azure-Blob''),
     (ReLit ''.azureedge.net'', ''Azure-CDN''),
     (ReLit ''.googleapis.com'', ''Google-API''),
     (ReLit ''.ghs.googlehosted.com'', ''Google-User''),
     (ReLit ''.firebaseapp.com'', ''Firebase''),
     (ReLit ''.github.io'', ''GitHub-Pages''),
     (ReLit ''.cloudapp.net'', ''Azure-VM''),
     (ReLit ''.trafficmanager.net'', ''Azure-Traffic''),
     (ReLit ''.herokuapp.com'', ''Heroku''),
     (ReLit ''.netlify.app'', ''Netlify''),
     (ReLit ''.pantheonsite.io'', ''Pantheon''),
     (ReLit ''.fastly.net'', ''Fastly''),
     (ReLit ''.vercel.app'', ''Vercel''),
     (ReLit ''.shopifyhostedapps.com'', ''Shopify''),
     (ReLit ''pagecdn.io'', ''PageCDN''),
     (ReLit ''.workers.dev'', ''Cloudflare-Workers''),
     (ReLit ''.appspot.com'', ''Google-AppEngine'')]"

record SubdomainInfo =
  Subdomain :: string
  HTTPStatus :: int
  ContentLength :: int
  Headers :: "(string \<times> string) list"
  IsTLS :: bool
  TLSIssuer :: string
  SANs :: "string list"
  CNAMEs :: "string list"
  CloudProvider :: string
  Score :: real
  Tags :: "string list"

record AnalysisOptions =
  Concurrency :: int
  Timeout :: int
  VerboseOutput :: bool
  ExcludeHeaders :: bool

definition DefaultOptions :: AnalysisOptions where
  "DefaultOptions =
     \<lparr>Concurrency = 10, Timeout = 5, VerboseOutput = False, ExcludeHeaders = True\<rparr>"

subsection \<open>lookupCNAME\<close>

text \<open>
  The recursion follows the chain as long as the answer differs from the name asked for;
  nothing else bounds it, so the function is partial: \<open>None\<close> is a call that never returns.
  The error of a nested call is dropped with its (empty) list. Package probe has a copy of the
  same function.
\<close>

partial_function (option) lookupCNAME ::
  "(string \<Rightarrow> string option) \<Rightarrow> string \<Rightarrow> (error + string list) option" where
  "lookupCNAME netLookup subdomain =
     (case netLookup subdomain of
        None \<Rightarrow> Some (Inl LookupError)
      | Some records \<Rightarrow>
          if records \<noteq> []
          then (let cname = trimSuffix records ''.'' in
                if cname \<noteq> subdomain
                then Option.bind (lookupCNAME netLookup cname)
                       (\<lambda>nested. Some (Inr (cname #
                          (case nested of Inl e \<Rightarrow> [] | Inr nestedCnames \<Rightarrow> nestedCnames))))
                else Some (Inr [cname]))
          else Some (Inr []))"

subsection \<open>analyzeSubdomain\<close>

definition newSubdomainInfo :: "string \<Rightarrow> SubdomainInfo" where
  "newSubdomainInfo subdomain =
     \<lparr>Subdomain = subdomain, HTTPStatus = 0, ContentLength = 0, Headers = [], IsTLS = False,
      TLSIssuer = [], SANs = [], CNAMEs = [], CloudProvider = [], Score = 1, Tags = []\<rparr>"

definition extractHeaders :: "AnalysisOptions \<Rightarrow> Response \<Rightarrow> SubdomainInfo \<Rightarrow> SubdomainInfo" where
  "extractHeaders options resp info =
     (if \<not> ExcludeHeaders options
      then info\<lparr>Headers := map (\<lambda>(name, values). (name, join values '', '')) (respHeader resp)\<rparr>
      else info)"

definition certValid :: "int \<Rightarrow> Certificate \<Rightarrow> bool" where
  "certValid now cert \<longleftrightarrow> now < NotAfter cert \<and> NotBefore cert < now"

definition extractTLS :: "World \<Rightarrow> string \<Rightarrow> Response \<Rightarrow> SubdomainInfo \<Rightarrow> SubdomainInfo" where
  "extractTLS w subdomain resp info =
     (case respTLS resp of
        Some (cert # certs) \<Rightarrow>
          (let info1 = info\<lparr>TLSIssuer := IssuerCommonName cert,
                              SANs := SANs info @ filter (\<lambda>san. san \<noteq> subdomain) (DNSNames cert)\<rparr>
           in if certValid (timeNow w) cert
              then info1\<lparr>Score := Score info1 + 0.5\<rparr>
              else info1\<lparr>Tags := Tags info1 @ [''CERT-INVALID''], Score := Score info1 - 0.3\<rparr>)
      | _ \<Rightarrow> info)"

text \<open>
  HTTP probing: the new record and the URLs requested, in order.
\<close>

definition httpProbing ::
  "World \<Rightarrow> AnalysisOptions \<Rightarrow> string \<Rightarrow> SubdomainInfo \<Rightarrow> SubdomainInfo \<times> string list" where
  "httpProbing w options subdomain info =
     (let httpsURL = ''https://'' @ subdomain in
      case httpGet w httpsURL of
        Some httpsResp \<Rightarrow>
          (extractTLS w subdomain httpsResp
             (extractHeaders options httpsResp
                (info\<lparr>IsTLS := True, HTTPStatus := respStatusCode httpsResp,
                       ContentLength := respContentLength httpsResp\<rparr>)),
           [httpsURL])
      | None \<Rightarrow>
          (let httpURL = ''http://'' @ subdomain in
           case httpGet w httpURL of
             Some httpResp \<Rightarrow>
               (extractHeaders options httpResp
                  (info\<lparr>HTTPStatus := respStatusCode httpResp,
                         ContentLength := respContentLength httpResp\<rparr>),
                [httpsURL, httpURL])
           | None \<Rightarrow>
               (info\<lparr>HTTPStatus := 0, Tags := Tags info @ [''NO-HTTP'']\<rparr>,
                [httpsURL, httpURL])))"

fun cnameLoop :: "regex \<Rightarrow> string \<Rightarrow> string list \<Rightarrow> SubdomainInfo \<Rightarrow> SubdomainInfo" where
  "cnameLoop pattern provider [] info = info"
| "cnameLoop pattern provider (cname # cnames) info =
     (if matchString pattern cname
      then info\<lparr>CloudProvider := provider, Tags := Tags info @ [provider],
                 Score := Score info + 1\<rparr>
      else cnameLoop pattern provider cnames info)"

fun patternLoop :: "(regex \<times> string) list \<Rightarrow> string list \<Rightarrow> SubdomainInfo \<Rightarrow> SubdomainInfo" where
  "patternLoop [] cnames info = info"
| "patternLoop ((pattern, provider) # patterns) cnames info =
     patternLoop patterns cnames (cnameLoop pattern provider cnames info)"

definition cnameLookup ::
  "(regex \<times> string) list \<Rightarrow> error + string list \<Rightarrow> SubdomainInfo \<Rightarrow> SubdomainInfo" where
  "cnameLookup patterns looked info =
     (case looked of
        Inr cnames \<Rightarrow> patternLoop patterns cnames (info\<lparr>CNAMEs := cnames\<rparr>)
      | Inl err \<Rightarrow> info)"

definition statusTags :: "SubdomainInfo \<Rightarrow> SubdomainInfo" where
  "statusTags info =
     (if HTTPStatus info \<ge> 200 \<and> HTTPStatus info < 300
      then info\<lparr>Tags := Tags info @ [itoa (HTTPStatus info)], Score := Score info + 1\<rparr>
      else if HTTPStatus info \<ge> 300 \<and> HTTPStatus info < 400
      then info\<lparr>Tags := Tags info @ [itoa (HTTPStatus info), ''REDIRECT''],
                 Score := Score info + 0.5\<rparr>
      else if HTTPStatus info = 403
      then info\<lparr>Tags := Tags info @ [''403''], Score := Score info + 0.7\<rparr>
      else if HTTPStatus info \<ge> 400 \<and> HTTPStatus info < 500
      then info\<lparr>Tags := Tags info @ [itoa (HTTPStatus info)], Score := Score info + 0.2\<rparr>
      else if HTTPStatus info \<ge> 500
      then info\<lparr>Tags := Tags info @ [itoa (HTTPStatus info)], Score := Score info + 0.3\<rparr>
      else info)"

definition sizeTags :: "SubdomainInfo \<Rightarrow> SubdomainInfo" where
  "sizeTags info =
     (if ContentLength info > 0
      then (let sizeKB = ContentLength info div 1024 in
            if sizeKB > 100
            then info\<lparr>Tags := Tags info @ [''LARGE''], Score := Score info + 0.2\<rparr>
            else info\<lparr>Tags := Tags info @ [itoa sizeKB @ ''KB'']\<rparr>)
      else info)"

definition analyzeSubdomain ::
  "(regex \<times> string) list \<Rightarrow> World \<Rightarrow> AnalysisOptions \<Rightarrow> string \<Rightarrow> SubdomainInfo option" where
  "analyzeSubdomain patterns w options subdomain =
     (let info = fst (httpProbing w options subdomain (newSubdomainInfo subdomain)) in
      Option.bind (lookupCNAME (netLookupCNAME w) subdomain)
        (\<lambda>looked. Some (sizeTags (statusTags (cnameLookup patterns looked info)))))"

subsection \<open>sortByScore\<close>

function sortInner :: "nat \<Rightarrow> nat \<Rightarrow> SubdomainInfo list \<Rightarrow> SubdomainInfo list" where
  "sortInner i j results =
     (if j < length results
      then sortInner i (j + 1)
             (if Score (results ! i) < Score (results ! j)
              then results[i := results ! j, j := results ! i]
              else results)
      else results)"
  by pat_completeness auto
termination
  by (relation "measure (\<lambda>(i, j, results). length results - j)") auto

declare sortInner.simps [simp del]

lemma length_sortInner [simp]: "length (sortInner i j results) = length results"
proof (induction i j results rule: sortInner.induct)
  case (1 i j results)
  show ?case
    by (subst sortInner.simps) (use 1 in \<open>simp\<close>)
qed

function sortOuter :: "nat \<Rightarrow> SubdomainInfo list \<Rightarrow> SubdomainInfo list" where
  "sortOuter i results =
     (if i < length results
      then sortOuter (i + 1) (sortInner i (i + 1) results)
      else results)"
  by pat_completeness auto
termination
  by (relation "measure (\<lambda>(i, results). length results - i)") auto

declare sortOuter.simps [simp del]

definition sortByScore :: "SubdomainInfo list \<Rightarrow> SubdomainInfo list" where
  "sortByScore results = sortOuter 0 results"

subsection \<open>AnalyzeSubdomains\<close>

text \<open>
  The worker pool as a transition system. \<open>unsent\<close> are the subdomains the main goroutine
  has not yet put on the channel, \<open>jobs\<close> is the buffered channel, \<open>busy\<close> are the
  subdomains the workers are analysing, \<open>results\<close> is the slice guarded by the mutex. A
  worker takes the head of the channel when fewer than \<open>Concurrency\<close> workers are busy, and
  appends its result when \<open>analyzeSubdomain\<close> returns. \<^verbatim>\<open>wg.Wait()\<close> returns once every
  subdomain has been sent and every job is done; then the results are sorted.
\<close>

record Pool =
  unsent :: "string list"
  jobs :: "string list"
  busy :: "string multiset"
  results :: "SubdomainInfo list"






section \<open>Package probe\<close>

text \<open>
  The fields \<^verbatim>\<open>HTTPStatus\<close>, \<^verbatim>\<open>ContentLength\<close> and \<^verbatim>\<open>Tags\<close> of \<^verbatim>\<open>ProbeResult\<close>, and
  \<^verbatim>\<open>Concurrency\<close> and \<^verbatim>\<open>Timeout\<close> of \<^verbatim>\<open>ProbeOptions\<close>, carry the suffix \<open>_probe\<close>: package
  scorer has fields of the same names.
\<close>

record ProbeResult =
  Domain :: string
  CNAME :: string
  HTTPStatus_probe :: int
  ContentLength_probe :: int
  IsTakeover :: bool
  S3Public :: bool
  S3Private :: bool
  ExposedFiles :: "string list"
  RedirectURL :: string
  OpenRedirect :: bool
  Vulnerabilities :: "string list"
  Tags_probe :: "string list"

record ProbeOptions =
  Concurrency_probe :: int
  Timeout_probe :: int
  UserAgent :: string
  Verbose :: bool

definition DefaultProbeOptions :: ProbeOptions where
  "DefaultProbeOptions =
     \<lparr>Concurrency_probe = 10, Timeout_probe = 10, UserAgent = ''Subscan/1.0'', Verbose = False\<rparr>"

text \<open>
  The Go map \<^verbatim>\<open>takeoversignatures\<close>, in the order of the source: provider, the strings
  looked for in the CNAME, the strings looked for in the body. As for the table of package
  scorer, the functions take the entries in the order the iteration visits them.
\<close>

definition takeoversignatures :: "(string \<times> string list \<times> string list) list" where
  "takeoversignatures =
    [(''AWS/S3'', [''s3.amazonaws.com'', ''amazonaws.com.s3'', ''.s3.amazonaws.com''],
        [''NoSuchBucket'', ''The specified bucket does not exist'']),
     (''Heroku'', [''herokuapp.com'', ''herokuapp''],
        [''No such app'', ''Heroku | No such app'', ''herokucdn.com/error-pages/no-such-app.html'']),
     (''GitHub'', [''github.io''],
        [''There isn't a GitHub Pages site here'',
         ''For root URLs (like http://example.com/) you must provide an index.html file'']),
     (''Azure'', [''azurewebsites.net'', ''cloudapp.net'', ''azure-api.net''], [''404 Web Site not found'']),
     (''Fastly'', [''fastly.net''], [''Fastly error: unknown domain'', ''fastly error'']),
     (''Pantheon'', [''pantheonsite.io''], [''The gods are wise'', ''404 error unknown site!'']),
     (''Shopify'', [''myshopify.com''], [''Sorry, this shop is currently unavailable'']),
     (''Zendesk'', [''zendesk.com''], [''Help Center Closed'']),
     (''Wordpress'', [''wordpress.com''], [''Do you want to register'']),
     (''Acquia'', [''acquia-sites.com''], [''The site you are looking for could not be found.'']),
     (''Agile CRM'', [''cname.agilecrm.com''], [''Sorry, this page is no longer available.'']),
     (''Bitbucket'', [''bitbucket.io''], [''Repository not found'']),
     (''Campaign Monitor'', [''createsend.com''], [''Double check the URL'']),
     (''DigitalOcean'', [''digitalocean.com''],
        [''404 Not Found'', ''Domain uses DO name servers with no records in DO.'']),
     (''Ghost'', [''ghost.io''], [''Domain is not configured'', ''404 Not Found'']),
     (''Strikingly'', [''s.strikinglydns.com''],
        [''But if you're looking to build your own website'', ''406 not acceptable'']),
     (''Surge.sh'', [''surge.sh''], [''project not found'']),
     (''Tumblr'', [''domains.tumblr.com''],
        [''Whatever you were looking for doesn't currently exist at this address.'']),
     (''Webflow'', [''proxy.webflow.com'', ''proxy-ssl.webflow.com''],
        [''The page you are looking for doesn't exist or has been moved.'']),
     (''Vercel'', [''vercel-dns.com'', ''vercel.app''], [''The deployment could not be found on Vercel.'']),
     (''Netlify'', [''netlify.app'', ''netlify.com''], [''Not found'', ''404''])]"

text \<open>\<^verbatim>\<open>sensitiveFilePaths\<close>: path, description, content signatures.\<close>

definition sensitiveFilePaths :: "(string \<times> string \<times> string list) list" where
  "sensitiveFilePaths =
    [(''.env'', ''Environment Variables File'', [''DB_PASSWORD'', ''API_KEY'', ''SECRET'']),
     (''/.env'', ''Environment Variables File'', [''DB_PASSWORD'', ''API_KEY'', ''SECRET'']),
     (''/.git/config'', ''Git Config File'', [''[core]'', ''repositoryformatversion'', ''filemode'']),
     (''/config.json'', ''Configuration File'', [''password'', ''secret'', ''key'', ''token'']),
     (''/wp-config.php'', ''WordPress Config'', [''DB_PASSWORD'', ''AUTH_KEY'']),
     (''/robots.txt'', ''Robots.txt File'', [''Disallow:'', ''Allow:'']),
     (''/sitemap.xml'', ''Sitemap'', [''<urlset'', ''<url>'', ''<loc>'']),
     (''/.well-known/security.txt'', ''Security Policy'', [''Contact:'', ''Expires:'']),
     (''/server-status'', ''Apache Status Page'', [''Apache Server Status'', ''Server Version:'']),
     (''/phpinfo.php'', ''PHP Info'', [''PHP Version'', ''PHP Credits''])]"

text \<open>\<^verbatim>\<open>openRedirectPatterns\<close>: path and parameter.\<close>

definition openRedirectPatterns :: "(string \<times> string) list" where
  "openRedirectPatterns =
    [(''/redirect'', ''url''), (''/login'', ''next''), (''/logout'', ''next''),
     (''/signin'', ''redirect''), (''/auth/callback'', ''url''), (''/go'', ''url''),
     (''/redirect'', ''to''), (''/'', ''url''), (''/'', ''redirect_to''), (''/'', ''redirect_uri''),
     (''/'', ''return_to''), (''/'', ''next''), (''/'', ''redir''), (''/'', ''r'')]"

subsection \<open>probeDomain\<close>

text \<open>
  \<open>probeDomain\<close> is one function in the source; its six numbered steps are one definition
  each here. \<^verbatim>\<open>resp\<close> is \<open>None\<close> for the Go \<^verbatim>\<open>nil\<close>, and \<^verbatim>\<open>body\<close> holds the first
  10 KiB of the answer.
\<close>

definition newProbeResult :: "string \<Rightarrow> ProbeResult" where
  "newProbeResult domain =
     \<lparr>Domain = domain, CNAME = [], HTTPStatus_probe = 0, ContentLength_probe = 0,
      IsTakeover = False, S3Public = False, S3Private = False, ExposedFiles = [],
      RedirectURL = [], OpenRedirect = False, Vulnerabilities = [], Tags_probe = []\<rparr>"

text \<open>
  Step 1. \<open>Inl\<close> is the early \<^verbatim>\<open>return result\<close> when \<^verbatim>\<open>http.NewRequest\<close> rejects the URL;
  \<open>Inr\<close> carries the record, \<^verbatim>\<open>resp\<close> and \<^verbatim>\<open>body\<close> on to the later steps.
\<close>

definition initialRequest ::
  "World \<Rightarrow> ProbeOptions \<Rightarrow> string \<Rightarrow> ProbeResult \<Rightarrow>
   ProbeResult + (ProbeResult \<times> Response option \<times> string)" where
  "initialRequest w options domain result =
     (if \<not> newRequestOk w (''https://'' @ domain) then Inl result
      else case httpGet w (''https://'' @ domain) of
        Some resp \<Rightarrow>
          Inr (result\<lparr>HTTPStatus_probe := respStatusCode resp,
                       ContentLength_probe := respContentLength resp\<rparr>,
               Some resp, take (10 * 1024) (respBody resp))
      | None \<Rightarrow>
          if \<not> newRequestOk w (''http://'' @ domain) then Inl result
          else case httpGet w (''http://'' @ domain) of
            Some resp \<Rightarrow>
              Inr (result\<lparr>HTTPStatus_probe := respStatusCode resp,
                           ContentLength_probe := respContentLength resp\<rparr>,
                   Some resp, take (10 * 1024) (respBody resp))
          | None \<Rightarrow> Inr (result, None, []))"

text \<open>Step 2: the first name of the chain, if the lookup gave one.\<close>

definition getCNAME :: "error + string list \<Rightarrow> ProbeResult \<Rightarrow> ProbeResult" where
  "getCNAME looked result =
     (case looked of
        Inr (cname # cnames) \<Rightarrow> result\<lparr>CNAME := cname\<rparr>
      | _ \<Rightarrow> result)"

text \<open>Step 3: the three nested loops, innermost first. Each inner loop ends at its \<^verbatim>\<open>break\<close>.\<close>

fun contentPatternLoop ::
  "string \<Rightarrow> Response option \<Rightarrow> string \<Rightarrow> string list \<Rightarrow> ProbeResult \<Rightarrow> ProbeResult" where
  "contentPatternLoop provider resp body [] result = result"
| "contentPatternLoop provider resp body (contentPattern # contentPatterns) result =
     (if resp \<noteq> None \<and> contains body contentPattern
      then result\<lparr>IsTakeover := True,
                   Vulnerabilities := Vulnerabilities result @
                     [''Subdomain Takeover ('' @ provider @ '')''],
                   Tags_probe := Tags_probe result @ [''TAKEOVER-CANDIDATE'', provider]\<rparr>
      else contentPatternLoop provider resp body contentPatterns result)"

fun cnamePatternLoop ::
  "string \<Rightarrow> Response option \<Rightarrow> string \<Rightarrow> string list \<Rightarrow> string list \<Rightarrow> ProbeResult \<Rightarrow>
   ProbeResult" where
  "cnamePatternLoop provider resp body [] matches result = result"
| "cnamePatternLoop provider resp body (cnamePattern # cnamePatterns) matches result =
     (if contains (CNAME result) cnamePattern
      then contentPatternLoop provider resp body matches result
      else cnamePatternLoop provider resp body cnamePatterns matches result)"

fun providerLoop ::
  "(string \<times> string list \<times> string list) list \<Rightarrow> Response option \<Rightarrow> string \<Rightarrow> ProbeResult \<Rightarrow>
   ProbeResult" where
  "providerLoop [] resp body result = result"
| "providerLoop ((provider, cnamePatterns, matches) # signatures) resp body result =
     providerLoop signatures resp body
       (cnamePatternLoop provider resp body cnamePatterns matches result)"

definition checkTakeover ::
  "(string \<times> string list \<times> string list) list \<Rightarrow> Response option \<Rightarrow> string \<Rightarrow> ProbeResult \<Rightarrow>
   ProbeResult" where
  "checkTakeover signatures resp body result =
     (if CNAME result \<noteq> [] then providerLoop signatures resp body result else result)"

text \<open>Step 4.\<close>

definition checkS3 :: "World \<Rightarrow> Response option \<Rightarrow> string \<Rightarrow> ProbeResult \<Rightarrow> ProbeResult" where
  "checkS3 w resp body result =
     (if (CNAME result \<noteq> [] \<and> (contains (CNAME result) ''s3.amazonaws.com'' \<or>
                                  contains (CNAME result) ''amazonaws.com'')) \<or>
         (resp \<noteq> None \<and> contains body ''<ListBucketResult'')
      then
        if contains body ''<ListBucketResult''
        then (let result1 = result\<lparr>S3Public := True,
                                     Vulnerabilities := Vulnerabilities result @ [''Public S3 Bucket''],
                                     Tags_probe := Tags_probe result @ [''PUBLIC-S3'']\<rparr>
              in case xmlContentsKeys w body of
                   Some (key # keys) \<Rightarrow> result1\<lparr>ExposedFiles := take 5 (key # keys)\<rparr>
                 | _ \<Rightarrow> result1)
        else if contains body ''AccessDenied''
        then result\<lparr>S3Private := True, Tags_probe := Tags_probe result @ [''PRIVATE-S3'']\<rparr>
        else if contains body ''NoSuchBucket''
        then result\<lparr>Vulnerabilities := Vulnerabilities result @ [''Unclaimed S3 Bucket''],
                     Tags_probe := Tags_probe result @ [''UNCLAIMED-S3'']\<rparr>
        else result
      else result)"

text \<open>
  Step 5. The loops of steps 5 and 6 return the record and the URLs they requested, in
  order.
\<close>

fun contentSigLoop ::
  "string \<Rightarrow> string \<Rightarrow> string \<Rightarrow> string list \<Rightarrow> ProbeResult \<Rightarrow> ProbeResult" where
  "contentSigLoop path description fileBody [] result = result"
| "contentSigLoop path description fileBody (sig # sigs) result =
     (if contains fileBody sig
      then result\<lparr>Vulnerabilities := Vulnerabilities result @ [''Exposed '' @ description],
                   Tags_probe := Tags_probe result @
                     [''EXPOSED-'' @ toUpper (last (splitSlash path))],
                   ExposedFiles := ExposedFiles result @ [path]\<rparr>
      else contentSigLoop path description fileBody sigs result)"

fun checkSensitiveFiles ::
  "World \<Rightarrow> string \<Rightarrow> (string \<times> string \<times> string list) list \<Rightarrow> ProbeResult \<Rightarrow>
   ProbeResult \<times> string list" where
  "checkSensitiveFiles w domain [] result = (result, [])"
| "checkSensitiveFiles w domain ((path, description, contentSigs) # filePaths) result =
     (if length (Vulnerabilities result) \<ge> 5 then (result, [])
      else
        (let fileURL = ''https://'' @ domain @ path in
         if \<not> newRequestOk w fileURL then checkSensitiveFiles w domain filePaths result
         else case httpGet w fileURL of
           None \<Rightarrow>
             (let (final, requests) = checkSensitiveFiles w domain filePaths result
              in (final, fileURL # requests))
         | Some fileResp \<Rightarrow>
             (let (final, requests) = checkSensitiveFiles w domain filePaths
                    (if respStatusCode fileResp = 200 \<and> \<not> respReadError fileResp
                     then contentSigLoop path description (take (5 * 1024) (respBody fileResp))
                            contentSigs result
                     else result)
              in (final, fileURL # requests))))"

text \<open>Step 6. \<^verbatim>\<open>Header.Get\<close> gives the first value of the header, or the empty string.\<close>

definition headerGet :: "(string \<times> string list) list \<Rightarrow> string \<Rightarrow> string" where
  "headerGet header key = (case map_of header key of Some (v # vs) \<Rightarrow> v | _ \<Rightarrow> [])"

fun checkOpenRedirects ::
  "World \<Rightarrow> string \<Rightarrow> (string \<times> string) list \<Rightarrow> ProbeResult \<Rightarrow> ProbeResult \<times> string list" where
  "checkOpenRedirects w domain [] result = (result, [])"
| "checkOpenRedirects w domain ((pathPattern, param) # redirectPatterns) result =
     (if OpenRedirect result then (result, [])
      else if length (Vulnerabilities result) \<ge> 5 then (result, [])
      else
        (let testURL = ''https://'' @ domain @ pathPattern @ ''?'' @ param @ ''=https://evil.com'' in
         if \<not> newRequestOk w testURL then checkOpenRedirects w domain redirectPatterns result
         else case httpGet w testURL of
           None \<Rightarrow>
             (let (final, requests) = checkOpenRedirects w domain redirectPatterns result
              in (final, testURL # requests))
         | Some redirectResp \<Rightarrow>
             (let (final, requests) = checkOpenRedirects w domain redirectPatterns
                    (if respStatusCode redirectResp \<ge> 300 \<and> respStatusCode redirectResp < 400 \<and>
                        contains (headerGet (respHeader redirectResp) ''Location'') ''evil.com''
                     then result\<lparr>OpenRedirect := True, RedirectURL := testURL,
                                  Vulnerabilities := Vulnerabilities result @ [''Open Redirect''],
                                  Tags_probe := Tags_probe result @ [''OPEN-REDIRECT'']\<rparr>
                     else result)
              in (final, testURL # requests))))"

text \<open>
  The steps in order. Steps 3 to 6 run on the answer of step 1; the result is \<open>None\<close> when
  the alias resolution of step 2 never returns.
\<close>

definition laterSteps ::
  "(string \<times> string list \<times> string list) list \<Rightarrow> World \<Rightarrow> string \<Rightarrow> Response option \<Rightarrow> string \<Rightarrow>
   ProbeResult \<Rightarrow> ProbeResult" where
  "laterSteps signatures w domain resp body result =
     fst (checkOpenRedirects w domain openRedirectPatterns
       (fst (checkSensitiveFiles w domain sensitiveFilePaths
          (checkS3 w resp body (checkTakeover signatures resp body result)))))"

definition probeDomain ::
  "(string \<times> string list \<times> string list) list \<Rightarrow> World \<Rightarrow> string \<Rightarrow> ProbeOptions \<Rightarrow>
   ProbeResult option" where
  "probeDomain signatures w domain options =
     (case initialRequest w options domain (newProbeResult domain) of
        Inl result \<Rightarrow> Some result
      | Inr (result, resp, body) \<Rightarrow>
          Option.bind (lookupCNAME (netLookupCNAME w) domain)
            (\<lambda>looked. Some (laterSteps signatures w domain resp body (getCNAME looked result))))"

section \<open>Notions used in the statements\<close>

declare lookupCNAME.simps [code]

subsection \<open>Alias chains that end\<close>

text \<open>
  \<open>chainEnds netLookup host\<close>: following the answers of the resolver from \<open>host\<close> reaches
  a lookup that fails, an empty answer, or a name that answers with itself.
\<close>

inductive chainEnds :: "(string \<Rightarrow> string option) \<Rightarrow> string \<Rightarrow> bool"
  for netLookup where
  lookupFails: "netLookup host = None \<Longrightarrow> chainEnds netLookup host"
| noRecord: "netLookup host = Some [] \<Longrightarrow> chainEnds netLookup host"
| ownName: "netLookup host = Some records \<Longrightarrow> records \<noteq> [] \<Longrightarrow>
     trimSuffix records ''.'' = host \<Longrightarrow> chainEnds netLookup host"
| nextHop: "netLookup host = Some records \<Longrightarrow> records \<noteq> [] \<Longrightarrow>
     trimSuffix records ''.'' \<noteq> host \<Longrightarrow> chainEnds netLookup (trimSuffix records ''.'') \<Longrightarrow>
     chainEnds netLookup host"

text \<open>A resolver with the cycle a \<rightarrow> b \<rightarrow> c \<rightarrow> a, and one with a chain of two names.\<close>

definition dnsCycle :: "string \<Rightarrow> string option" where
  "dnsCycle host =
     (if host = ''a.example.com'' then Some ''b.example.com.''
      else if host = ''b.example.com'' then Some ''c.example.com.''
      else if host = ''c.example.com'' then Some ''a.example.com.''
      else None)"

definition dnsChain :: "string \<Rightarrow> string option" where
  "dnsChain host =
     (if host = ''www.example.com'' then Some ''edge.example.net.''
      else if host = ''edge.example.net'' then Some ''edge.example.net.''
      else None)"

subsection \<open>The parts of a score\<close>


definition providerMatches :: "(regex \<times> string) list \<Rightarrow> string list \<Rightarrow> nat" where
  "providerMatches patterns cnames =
     length (filter (\<lambda>(pattern, provider). list_ex (matchString pattern) cnames) patterns)"



text \<open>
  Two hosts. \<open>azureWorld\<close>: no web server answers, and the alias chain of
  \<^verbatim>\<open>app.example.com\<close> passes through two names of the provider table. \<open>shopWorld\<close>:
  \<^verbatim>\<open>shop.example.com\<close> answers HTTPS with status 200, a certificate valid at the time of
  the run and 200 KiB of content, and is an alias of a Heroku name.
\<close>

definition azureWorld :: World where
  "azureWorld =
     \<lparr>httpGet = (\<lambda>url. None),
      netLookupCNAME = (\<lambda>host.
         if host = ''app.example.com'' then Some ''app.azurewebsites.net.''
         else if host = ''app.azurewebsites.net'' then Some ''waws.cloudapp.net.''
         else if host = ''waws.cloudapp.net'' then Some ''waws.cloudapp.net.''
         else None),
      timeNow = 0,
      newRequestOk = (\<lambda>url. True),
      xmlContentsKeys = (\<lambda>body. None)\<rparr>"





definition legacyWorld :: World where
  "legacyWorld =
     \<lparr>httpGet = (\<lambda>url. None),
      netLookupCNAME = (\<lambda>host.
         if host = ''old.example.com'' then Some ''legacy.example.org.''
         else if host = ''legacy.example.org'' then Some ''legacy.example.org.''
         else None),
      timeNow = 0,
      newRequestOk = (\<lambda>url. True),
      xmlContentsKeys = (\<lambda>body. None)\<rparr>"

text \<open>In \<open>cycleWorld\<close> every request fails and the resolver answers with the cycle.\<close>

definition cycleWorld :: World where
  "cycleWorld =
     \<lparr>httpGet = (\<lambda>url. None), netLookupCNAME = dnsCycle, timeNow = 0,
      newRequestOk = (\<lambda>url. True), xmlContentsKeys = (\<lambda>body. None)\<rparr>"

subsection \<open>The invariant of the worker pool\<close>





subsection \<open>Findings of the probe\<close>

text \<open>
  \<open>takeoverHit\<close>: an entry of the signature table applies to a CNAME and an answer.
  \<open>takeoverFinding\<close>: the finding recorded for it. \<open>grows F r r'\<close>: \<open>r'\<close> is \<open>r\<close> with
  findings satisfying \<open>F\<close>, tags and exposed files appended, the CNAME and the flags of
  steps 3 and 4 unchanged. \<open>laterFinding\<close>: the findings steps 5 and 6 record.
\<close>

definition takeoverHit ::
  "string \<Rightarrow> Response option \<Rightarrow> string \<Rightarrow> string \<times> string list \<times> string list \<Rightarrow> bool" where
  "takeoverHit cname resp body signature =
     (case signature of (provider, cnamePatterns, matches) \<Rightarrow>
        list_ex (contains cname) cnamePatterns \<and> resp \<noteq> None \<and> list_ex (contains body) matches)"

definition takeoverFinding :: "string \<times> string list \<times> string list \<Rightarrow> string" where
  "takeoverFinding signature = ''Subdomain Takeover ('' @ fst signature @ '')''"

definition grows :: "(string \<Rightarrow> bool) \<Rightarrow> ProbeResult \<Rightarrow> ProbeResult \<Rightarrow> bool" where
  "grows F r r' \<longleftrightarrow>
     CNAME r' = CNAME r \<and> IsTakeover r' = IsTakeover r \<and> S3Public r' = S3Public r \<and>
     S3Private r' = S3Private r \<and>
     (\<exists>vs. Vulnerabilities r' = Vulnerabilities r @ vs \<and> list_all F vs) \<and>
     (\<exists>ts. Tags_probe r' = Tags_probe r @ ts) \<and>
     (\<exists>fs. ExposedFiles r' = ExposedFiles r @ fs)"

definition laterFinding :: "string \<Rightarrow> bool" where
  "laterFinding v \<longleftrightarrow> hasPrefix v ''Exposed '' \<or> v = ''Open Redirect''"

text \<open>
  Hosts of the probe. In \<open>herokuWorld\<close> the host \<^verbatim>\<open>dead.example.com\<close> is an alias of a
  Heroku name and answers "No such app"; in \<open>hopWorld\<close> the Heroku name is the second name
  of the alias chain of \<^verbatim>\<open>www.example.com\<close>.
\<close>

definition herokuResp :: Response where
  "herokuResp =
     \<lparr>respStatusCode = 404, respContentLength = 11, respHeader = [], respTLS = None,
      respBody = ''No such app'', respReadError = False\<rparr>"

definition herokuWorld :: World where
  "herokuWorld =
     \<lparr>httpGet = (\<lambda>url.
         if url = ''https://dead.example.com''
         then Some herokuResp
         else None),
      netLookupCNAME = (\<lambda>host.
         if host = ''dead.example.com'' then Some ''dead.herokuapp.com.''
         else if host = ''dead.herokuapp.com'' then Some ''dead.herokuapp.com.''
         else None),
      timeNow = 0,
      newRequestOk = (\<lambda>url. True),
      xmlContentsKeys = (\<lambda>body. None)\<rparr>"

definition hopWorld :: World where
  "hopWorld =
     \<lparr>httpGet = (\<lambda>url.
         if url = ''https://www.example.com''
         then Some herokuResp
         else None),
      netLookupCNAME = (\<lambda>host.
         if host = ''www.example.com'' then Some ''edge.example.net.''
         else if host = ''edge.example.net'' then Some ''dead.herokuapp.com.''
         else if host = ''dead.herokuapp.com'' then Some ''dead.herokuapp.com.''
         else None),
      timeNow = 0,
      newRequestOk = (\<lambda>url. True),
      xmlContentsKeys = (\<lambda>body. None)\<rparr>"

text \<open>
  In \<open>crowdedWorld\<close> the alias of \<^verbatim>\<open>x.example.com\<close> contains the CNAME strings of five
  providers, and the body holds a fingerprint of each and the marker of a bucket listing.
  \<open>fullResult\<close> is a record with five findings.
\<close>

definition crowdedResp :: Response where
  "crowdedResp =
     \<lparr>respStatusCode = 404, respContentLength = 0 - 1, respHeader = [], respTLS = None,
      respBody = ''<ListBucketResult> No such app. There isn't a GitHub Pages site here. fastly error. Domain is not configured. project not found.'',
      respReadError = False\<rparr>"

definition crowdedWorld :: World where
  "crowdedWorld =
     \<lparr>httpGet = (\<lambda>url. if url = ''https://x.example.com'' then Some crowdedResp else None),
      netLookupCNAME = (\<lambda>host.
         if host = ''x.example.com'' then Some ''x.herokuapp.com.github.io.fastly.net.ghost.io.surge.sh.''
         else if host = ''x.herokuapp.com.github.io.fastly.net.ghost.io.surge.sh''
         then Some ''x.herokuapp.com.github.io.fastly.net.ghost.io.surge.sh.''
         else None),
      timeNow = 0,
      newRequestOk = (\<lambda>url. True),
      xmlContentsKeys = (\<lambda>body. None)\<rparr>"

definition fullResult :: ProbeResult where
  "fullResult =
     (newProbeResult ''x.example.com'')
       \<lparr>Vulnerabilities := [''Subdomain Takeover (Heroku)'', ''Subdomain Takeover (GitHub)'',
          ''Subdomain Takeover (Fastly)'', ''Subdomain Takeover (Ghost)'',
          ''Subdomain Takeover (Surge.sh)'']\<rparr>"








subsection \<open>Sorted prefixes\<close>

text \<open>
  The invariant of the outer loop of \<open>sortByScore\<close>: every position before \<open>i\<close> holds a
  score at least as large as every later position.
\<close>

definition prefix_sorted :: "nat \<Rightarrow> SubdomainInfo list \<Rightarrow> bool" where
  "prefix_sorted i rs \<longleftrightarrow>
     (\<forall>k l. k < i \<and> k < l \<and> l < length rs \<longrightarrow> Score (rs ! l) \<le> Score (rs ! k))"

section \<open>The order of the report\<close>

text \<open>
  \<open>sortByScore\<close> is an exchange sort: position \<open>i\<close> is compared with every later position
  and swapped with it when its score is strictly smaller.
\<close>

lemma mset_sortInner: "i < length rs \<Longrightarrow> mset (sortInner i j rs) = mset rs"
proof (induction i j rs rule: sortInner.induct)
  case (1 i j rs)
  show ?case
    by (subst sortInner.simps) (use 1 in \<open>simp add: mset_swap\<close>)
qed

lemma sortInner_prefix: "k < i \<Longrightarrow> i < j \<Longrightarrow> sortInner i j rs ! k = rs ! k"
proof (induction i j rs rule: sortInner.induct)
  case (1 i j rs)
  show ?case
    by (subst sortInner.simps) (use 1 in \<open>simp\<close>)
qed

lemma sortInner_from_suffix:
  "i < j \<Longrightarrow> i \<le> l \<Longrightarrow> l < length rs \<Longrightarrow>
   \<exists>m. i \<le> m \<and> m < length rs \<and> sortInner i j rs ! l = rs ! m"
proof (induction i j rs arbitrary: l rule: sortInner.induct)
  case (1 i j rs)
  show ?case
  proof (cases "j < length rs")
    case True
    let ?r = "if Score (rs ! i) < Score (rs ! j)
              then rs[i := rs ! j, j := rs ! i] else rs"
    have len: "length ?r = length rs" by simp
    from 1(1)[OF True, of l] 1(2,3,4) len
    obtain m where m: "i \<le> m" "m < length rs" "sortInner i (j + 1) ?r ! l = ?r ! m"
      by auto
    have "\<exists>m'. i \<le> m' \<and> m' < length rs \<and> ?r ! m = rs ! m'"
    proof (cases "Score (rs ! i) < Score (rs ! j)")
      case False
      then show ?thesis using m by auto
    next
      case sw: True
      consider "m = j" | "m \<noteq> j" "m = i" | "m \<noteq> j" "m \<noteq> i" by blast
      then show ?thesis
      proof cases
        case 1
        then show ?thesis using sw m True \<open>i < j\<close> by (intro exI[of _ i]) simp
      next
        case 2
        then show ?thesis using sw m True \<open>i < j\<close> by (intro exI[of _ j]) simp
      next
        case 3
        then show ?thesis using sw m True \<open>i < j\<close> by (intro exI[of _ m]) simp
      qed
    qed
    then show ?thesis
      using m(3) True by (subst sortInner.simps) auto
  next
    case False
    then show ?thesis
      using 1(3,4) by (subst sortInner.simps) auto
  qed
qed

lemma sortInner_head_max:
  "i < j \<Longrightarrow>
   \<forall>l. i < l \<and> l < j \<and> l < length rs \<longrightarrow> Score (rs ! l) \<le> Score (rs ! i) \<Longrightarrow>
   i < l \<Longrightarrow> l < length rs \<Longrightarrow>
   Score (sortInner i j rs ! l) \<le> Score (sortInner i j rs ! i)"
proof (induction i j rs arbitrary: l rule: sortInner.induct)
  case (1 i j rs)
  show ?case
  proof (cases "j < length rs")
    case True
    let ?r = "if Score (rs ! i) < Score (rs ! j)
              then rs[i := rs ! j, j := rs ! i] else rs"
    have pre: "\<forall>l. i < l \<and> l < j + 1 \<and> l < length ?r \<longrightarrow> Score (?r ! l) \<le> Score (?r ! i)"
      using 1(2,3) True by (auto simp: nth_list_update less_Suc_eq)
    have "i < j + 1" using 1(2) by simp
    moreover have "l < length ?r" using 1(5) by simp
    ultimately have "Score (sortInner i (j + 1) ?r ! l) \<le> Score (sortInner i (j + 1) ?r ! i)"
      using 1(1)[OF True _ pre, of l] 1(4) by blast
    then show ?thesis
      using True by (subst (1 2) sortInner.simps) simp
  next
    case False
    then show ?thesis
      using 1(3,4,5) 1(2) by (subst (1 2) sortInner.simps) auto
  qed
qed

lemma prefix_sorted_step:
  assumes "prefix_sorted i rs" "i < length rs"
  shows "prefix_sorted (i + 1) (sortInner i (i + 1) rs)"
  unfolding prefix_sorted_def
proof (intro allI impI)
  fix k l
  assume a: "k < i + 1 \<and> k < l \<and> l < length (sortInner i (i + 1) rs)"
  then have l: "l < length rs" by simp
  show "Score (sortInner i (i + 1) rs ! l) \<le> Score (sortInner i (i + 1) rs ! k)"
  proof (cases "k < i")
    case True
    then have k: "sortInner i (i + 1) rs ! k = rs ! k"
      by (simp add: sortInner_prefix)
    show ?thesis
    proof (cases "l < i")
      case True
      then have "sortInner i (i + 1) rs ! l = rs ! l"
        by (simp add: sortInner_prefix)
      then show ?thesis
        using k assms(1) a l \<open>k < i\<close> by (auto simp: prefix_sorted_def)
    next
      case False
      then have "i \<le> l" by simp
      from sortInner_from_suffix[OF _ this l, of "i + 1"]
      obtain m where m: "i \<le> m" "m < length rs" "sortInner i (i + 1) rs ! l = rs ! m"
        by auto
      then show ?thesis
        using k assms(1) \<open>k < i\<close> by (auto simp: prefix_sorted_def)
    qed
  next
    case False
    with a have "k = i" "i < l" by auto
    then show ?thesis
      using sortInner_head_max[of i "i + 1" rs l] l by simp
  qed
qed

lemma mset_sortOuter: "mset (sortOuter i rs) = mset rs"
proof (induction i rs rule: sortOuter.induct)
  case (1 i rs)
  show ?case
    by (subst sortOuter.simps) (use 1 in \<open>simp add: mset_sortInner\<close>)
qed

lemma length_sortOuter: "length (sortOuter i rs) = length rs"
  using mset_sortOuter[of i rs] by (metis size_mset)

lemma sortOuter_sorted:
  "prefix_sorted i rs \<Longrightarrow> prefix_sorted (length rs) (sortOuter i rs)"
proof (induction i rs rule: sortOuter.induct)
  case (1 i rs)
  show ?case
  proof (cases "i < length rs")
    case True
    show ?thesis
      using 1(1)[OF True prefix_sorted_step[OF 1(2) True]]
      by (subst sortOuter.simps) (simp add: True)
  next
    case False
    then show ?thesis
      using 1(2) by (subst sortOuter.simps) (auto simp: prefix_sorted_def)
  qed
qed

text \<open>
  Claim C1, as the code has it: for every list of results, \<open>sortByScore\<close> returns the same
  results (as a multiset) in descending order of score. Results with equal scores may change
  places: the sort is not stable.
\<close>

theorem sortByScore_descending:
  "sorted_wrt (\<lambda>a b. Score b \<le> Score a) (sortByScore rs) \<and>
   mset (sortByScore rs) = mset rs"
proof -
  have "prefix_sorted 0 rs" by (simp add: prefix_sorted_def)
  from sortOuter_sorted[OF this]
  have "prefix_sorted (length (sortOuter 0 rs)) (sortOuter 0 rs)"
    by (simp add: length_sortOuter)
  then have "sorted_wrt (\<lambda>a b. Score b \<le> Score a) (sortOuter 0 rs)"
    by (auto simp: sorted_wrt_iff_nth_less prefix_sorted_def)
  then show ?thesis
    by (simp add: sortByScore_def mset_sortOuter)
qed

text \<open>The theorem at two results that arrive in ascending order.\<close>

theorem sortByScore_descending_witness:
  "sorted_wrt (\<lambda>a b. Score b \<le> Score a)
     (sortByScore [newSubdomainInfo ''a'', (newSubdomainInfo ''c'')\<lparr>Score := 2\<rparr>]) \<and>
   mset (sortByScore [newSubdomainInfo ''a'', (newSubdomainInfo ''c'')\<lparr>Score := 2\<rparr>]) =
     mset [newSubdomainInfo ''a'', (newSubdomainInfo ''c'')\<lparr>Score := 2\<rparr>] \<and>
   map Subdomain (sortByScore [newSubdomainInfo ''a'', (newSubdomainInfo ''c'')\<lparr>Score := 2\<rparr>]) =
     [''c'', ''a'']"
proof -
  have "map Subdomain (sortByScore [newSubdomainInfo ''a'', (newSubdomainInfo ''c'')\<lparr>Score := 2\<rparr>]) =
     [''c'', ''a'']"
    by code_simp
  then show ?thesis
    using sortByScore_descending[of "[newSubdomainInfo ''a'', (newSubdomainInfo ''c'')\<lparr>Score := 2\<rparr>]"]
    by simp
qed

text \<open>
  Stability fails: \<^verbatim>\<open>a\<close> and \<^verbatim>\<open>b\<close> have the same score and arrive in this order; the swap
  that brings \<^verbatim>\<open>c\<close> to the front puts \<^verbatim>\<open>a\<close> behind \<^verbatim>\<open>b\<close>.
\<close>

theorem sortByScore_not_stable:
  "map Subdomain (sortByScore [newSubdomainInfo ''a'', newSubdomainInfo ''b'',
      (newSubdomainInfo ''c'')\<lparr>Score := 2\<rparr>]) = [''c'', ''b'', ''a'']"
  by code_simp

section \<open>Alias resolution\<close>

lemma chainEnds_returns: "chainEnds netLookup host \<Longrightarrow> \<exists>r. lookupCNAME netLookup host = Some r"
proof (induction rule: chainEnds.induct)
  case (lookupFails host)
  then show ?case by (subst lookupCNAME.simps) simp
next
  case (noRecord host)
  then show ?case by (subst lookupCNAME.simps) simp
next
  case (ownName host records)
  then show ?case by (subst lookupCNAME.simps) simp
next
  case (nextHop host records)
  then show ?case by (subst lookupCNAME.simps) auto
qed

lemma lookupCNAME_ownName:
  "netLookup host = Some records \<Longrightarrow> records \<noteq> [] \<Longrightarrow> trimSuffix records ''.'' = host \<Longrightarrow>
   lookupCNAME netLookup host = Some (Inr [host])"
  by (subst lookupCNAME.simps) simp

lemma dnsCycle_never_returns:
  assumes "lookupCNAME netLookup host = Some y"
  shows "netLookup = dnsCycle \<longrightarrow> host \<notin> {''a.example.com'', ''b.example.com'', ''c.example.com''}"
proof (rule lookupCNAME.raw_induct[where P = "\<lambda>netLookup host y. netLookup = dnsCycle \<longrightarrow>
          host \<notin> {''a.example.com'', ''b.example.com'', ''c.example.com''}", OF _ assms])
  fix rec :: "(string \<Rightarrow> string option) \<Rightarrow> string \<Rightarrow> (error + string list) option"
    and netLookup :: "string \<Rightarrow> string option" and host :: string and y :: "error + string list"
  assume IH: "\<And>netLookup host y. rec netLookup host = Some y \<Longrightarrow> netLookup = dnsCycle \<longrightarrow>
          host \<notin> {''a.example.com'', ''b.example.com'', ''c.example.com''}"
  assume body: "(case netLookup host of
        None \<Rightarrow> Some (Inl LookupError)
      | Some records \<Rightarrow>
          if records \<noteq> []
          then (let cname = trimSuffix records ''.'' in
                if cname \<noteq> host
                then Option.bind (rec netLookup cname)
                       (\<lambda>nested. Some (Inr (cname #
                          (case nested of Inl e \<Rightarrow> [] | Inr nestedCnames \<Rightarrow> nestedCnames))))
                else Some (Inr [cname]))
          else Some (Inr [])) = Some y"
  show "netLookup = dnsCycle \<longrightarrow> host \<notin> {''a.example.com'', ''b.example.com'', ''c.example.com''}"
  proof (intro impI notI)
    assume lk: "netLookup = dnsCycle"
      and h: "host \<in> {''a.example.com'', ''b.example.com'', ''c.example.com''}"
    from h consider "host = ''a.example.com''" | "host = ''b.example.com''" | "host = ''c.example.com''"
      by blast
    then show False
    proof cases
      case 1
      with body lk obtain z where "rec dnsCycle ''b.example.com'' = Some z"
        by (auto simp: dnsCycle_def trimSuffix_def Let_def bind_eq_Some_conv)
      from IH[OF this] show False by simp
    next
      case 2
      with body lk obtain z where "rec dnsCycle ''c.example.com'' = Some z"
        by (auto simp: dnsCycle_def trimSuffix_def Let_def bind_eq_Some_conv)
      from IH[OF this] show False by simp
    next
      case 3
      with body lk obtain z where "rec dnsCycle ''a.example.com'' = Some z"
        by (auto simp: dnsCycle_def trimSuffix_def Let_def bind_eq_Some_conv)
      from IH[OF this] show False by simp
    qed
  qed
qed

lemma lookupCNAME_dnsCycle:
  "host \<in> {''a.example.com'', ''b.example.com'', ''c.example.com''} \<Longrightarrow> lookupCNAME dnsCycle host = None"
proof (cases "lookupCNAME dnsCycle host")
  case (Some y)
  assume "host \<in> {''a.example.com'', ''b.example.com'', ''c.example.com''}"
  with dnsCycle_never_returns[OF Some] show ?thesis by simp
qed simp

text \<open>
  Claim C2, as the code has it: \<open>lookupCNAME\<close> returns whenever the alias chain of the host
  ends (at a failing lookup, an empty answer or a name that answers with itself), and a name
  that answers with itself is returned as a chain of one hop. The only comparison the code
  makes is between a name and its own answer, so nothing stops a cycle through two names
  or more.
\<close>

theorem lookupCNAME_terminates:
  "(chainEnds netLookup host \<longrightarrow> (\<exists>r. lookupCNAME netLookup host = Some r)) \<and>
   (netLookup host = Some records \<and> records \<noteq> [] \<and> trimSuffix records ''.'' = host \<longrightarrow>
      lookupCNAME netLookup host = Some (Inr [host]))"
  using chainEnds_returns lookupCNAME_ownName by blast

text \<open>The theorem at a chain of two names, the second answering with itself.\<close>

theorem lookupCNAME_terminates_witness:
  "chainEnds dnsChain ''www.example.com'' \<and>
   (\<exists>r. lookupCNAME dnsChain ''www.example.com'' = Some r) \<and>
   dnsChain ''edge.example.net'' = Some ''edge.example.net.'' \<and>
   lookupCNAME dnsChain ''edge.example.net'' = Some (Inr [''edge.example.net''])"
proof -
  have t: "trimSuffix ''edge.example.net.'' ''.'' = ''edge.example.net''"
    by (simp add: trimSuffix_def)
  have e: "dnsChain ''edge.example.net'' = Some ''edge.example.net.''"
    by (simp add: dnsChain_def)
  have w: "dnsChain ''www.example.com'' = Some ''edge.example.net.''"
    by (simp add: dnsChain_def)
  have c1: "chainEnds dnsChain ''edge.example.net''"
    by (rule chainEnds.ownName[of dnsChain "''edge.example.net''" "''edge.example.net.''"])
       (simp_all add: t e)
  have c2: "chainEnds dnsChain ''www.example.com''"
    by (rule chainEnds.nextHop[of dnsChain "''www.example.com''" "''edge.example.net.''"])
       (simp_all add: t w c1)
  show ?thesis
    using lookupCNAME_terminates[of dnsChain "''www.example.com''" "''edge.example.net.''"]
      lookupCNAME_terminates[of dnsChain "''edge.example.net''" "''edge.example.net.''"]
      c2 e t by simp
qed

text \<open>On the cycle a \<rightarrow> b \<rightarrow> c \<rightarrow> a the call for \<^verbatim>\<open>a.example.com\<close> never returns.\<close>

theorem lookupCNAME_cycle_diverges: "lookupCNAME dnsCycle ''a.example.com'' = None"
proof (cases "lookupCNAME dnsCycle ''a.example.com''")
  case (Some y)
  from dnsCycle_never_returns[OF this] show ?thesis by simp
qed simp

section \<open>The score of a subdomain\<close>

lemma Subdomain_extractHeaders [simp]:
  "Subdomain (extractHeaders options resp info) = Subdomain info"
  by (simp add: extractHeaders_def)

lemma Subdomain_extractTLS [simp]:
  "Subdomain (extractTLS w subdomain resp info) = Subdomain info"
  by (simp add: extractTLS_def Let_def split: option.splits list.splits)

lemma Subdomain_httpProbing [simp]:
  "Subdomain (fst (httpProbing w options subdomain info)) = Subdomain info"
  by (simp add: httpProbing_def Let_def split: option.splits)

lemma cnameLoop_fields [simp]:
  "Subdomain (cnameLoop pattern provider cnames info) = Subdomain info"
  "HTTPStatus (cnameLoop pattern provider cnames info) = HTTPStatus info"
  "ContentLength (cnameLoop pattern provider cnames info) = ContentLength info"
  "CNAMEs (cnameLoop pattern provider cnames info) = CNAMEs info"
  by (induction cnames) simp_all

lemma patternLoop_fields [simp]:
  "Subdomain (patternLoop patterns cnames info) = Subdomain info"
  "HTTPStatus (patternLoop patterns cnames info) = HTTPStatus info"
  "ContentLength (patternLoop patterns cnames info) = ContentLength info"
  "CNAMEs (patternLoop patterns cnames info) = CNAMEs info"
  by (induction patterns cnames info rule: patternLoop.induct) simp_all

lemma cnameLookup_fields [simp]:
  "Subdomain (cnameLookup patterns looked info) = Subdomain info"
  "HTTPStatus (cnameLookup patterns looked info) = HTTPStatus info"
  "ContentLength (cnameLookup patterns looked info) = ContentLength info"
  by (simp_all add: cnameLookup_def split: sum.splits)

lemma statusTags_fields [simp]:
  "Subdomain (statusTags info) = Subdomain info"
  "HTTPStatus (statusTags info) = HTTPStatus info"
  "ContentLength (statusTags info) = ContentLength info"
  "CNAMEs (statusTags info) = CNAMEs info"
  by (simp_all add: statusTags_def)

lemma sizeTags_fields [simp]:
  "Subdomain (sizeTags info) = Subdomain info"
  "HTTPStatus (sizeTags info) = HTTPStatus info"
  "ContentLength (sizeTags info) = ContentLength info"
  "CNAMEs (sizeTags info) = CNAMEs info"
  by (simp_all add: sizeTags_def Let_def)





lemma providerMatches_Nil [simp]: "providerMatches patterns [] = 0"
  by (induction patterns) (auto simp: providerMatches_def)





lemma Score_extractHeaders [simp]: "Score (extractHeaders options resp info) = Score info"
  by (simp add: extractHeaders_def)

lemma CNAMEs_httpProbing [simp]:
  "CNAMEs (fst (httpProbing w options subdomain info)) = CNAMEs info"
  by (simp add: httpProbing_def Let_def extractHeaders_def extractTLS_def split: option.splits list.splits)





section \<open>HTTPS first, then HTTP\<close>

lemma newSubdomainInfo_fields [simp]:
  "Subdomain (newSubdomainInfo subdomain) = subdomain"
  "HTTPStatus (newSubdomainInfo subdomain) = 0"
  "ContentLength (newSubdomainInfo subdomain) = 0"
  "CNAMEs (newSubdomainInfo subdomain) = []"
  "Score (newSubdomainInfo subdomain) = 1"
  "Tags (newSubdomainInfo subdomain) = []"
  by (simp_all add: newSubdomainInfo_def)

lemma httpProbing_requests:
  "snd (httpProbing w options subdomain info) =
     (if httpGet w (''https://'' @ subdomain) = None
      then [''https://'' @ subdomain, ''http://'' @ subdomain]
      else [''https://'' @ subdomain])"
  by (simp add: httpProbing_def Let_def split: option.splits)

lemma httpProbing_both_fail:
  "httpGet w (''https://'' @ subdomain) = None \<Longrightarrow> httpGet w (''http://'' @ subdomain) = None \<Longrightarrow>
   fst (httpProbing w options subdomain info) = info\<lparr>HTTPStatus := 0, Tags := Tags info @ [''NO-HTTP'']\<rparr>"
  by (simp add: httpProbing_def Let_def)

lemma analyzeSubdomain_None:
  "analyzeSubdomain patterns w options subdomain = None \<longleftrightarrow>
   lookupCNAME (netLookupCNAME w) subdomain = None"
  by (simp add: analyzeSubdomain_def Let_def bind_eq_None_conv)

lemma cnameLoop_Tags_prefix:
  "\<exists>more. Tags (cnameLoop pattern provider cnames info) = Tags info @ more"
  by (induction cnames) auto

lemma patternLoop_Tags_prefix:
  "\<exists>more. Tags (patternLoop patterns cnames info) = Tags info @ more"
proof (induction patterns cnames info rule: patternLoop.induct)
  case (1 cnames info)
  show ?case by simp
next
  case (2 pattern provider patterns cnames info)
  from cnameLoop_Tags_prefix[of pattern provider cnames info] 2 show ?case
    by auto
qed

lemma cnameLookup_Tags_prefix:
  "\<exists>more. Tags (cnameLookup patterns looked info) = Tags info @ more"
  using patternLoop_Tags_prefix[of patterns _ "info\<lparr>CNAMEs := _\<rparr>"]
  by (cases looked) (auto simp: cnameLookup_def)

lemma statusTags_Tags_prefix: "\<exists>more. Tags (statusTags info) = Tags info @ more"
  by (simp add: statusTags_def)

lemma sizeTags_Tags_prefix: "\<exists>more. Tags (sizeTags info) = Tags info @ more"
  by (simp add: sizeTags_def Let_def)

lemma analysis_keeps_Tags:
  "set (Tags info) \<subseteq> set (Tags (sizeTags (statusTags (cnameLookup patterns looked info))))"
proof -
  obtain m1 where "Tags (cnameLookup patterns looked info) = Tags info @ m1"
    using cnameLookup_Tags_prefix by blast
  moreover obtain m2 where "Tags (statusTags (cnameLookup patterns looked info)) =
      Tags (cnameLookup patterns looked info) @ m2"
    using statusTags_Tags_prefix by blast
  moreover obtain m3 where "Tags (sizeTags (statusTags (cnameLookup patterns looked info))) =
      Tags (statusTags (cnameLookup patterns looked info)) @ m3"
    using sizeTags_Tags_prefix by blast
  ultimately show ?thesis by auto
qed

text \<open>
  Claim C4: \<open>analyzeSubdomain\<close> requests the HTTPS URL first and the HTTP URL exactly once,
  when and only when the HTTPS request failed. When both fail, the record gets status 0 and
  the tag \<^verbatim>\<open>NO-HTTP\<close>, no content length is recorded, and the analysis goes on: whenever
  the alias resolution returns, so does the analysis, with that status and that tag. Whether
  the analysis returns depends on the alias resolution alone, never on the HTTP requests.
\<close>

theorem httpProbing_fallback:
  "snd (httpProbing w options subdomain info) =
     (if httpGet w (''https://'' @ subdomain) = None
      then [''https://'' @ subdomain, ''http://'' @ subdomain]
      else [''https://'' @ subdomain]) \<and>
   (httpGet w (''https://'' @ subdomain) = None \<and> httpGet w (''http://'' @ subdomain) = None \<longrightarrow>
      fst (httpProbing w options subdomain info) =
        info\<lparr>HTTPStatus := 0, Tags := Tags info @ [''NO-HTTP'']\<rparr> \<and>
      (\<forall>looked. lookupCNAME (netLookupCNAME w) subdomain = Some looked \<longrightarrow>
        (\<exists>result. analyzeSubdomain patterns w options subdomain = Some result \<and>
           Subdomain result = subdomain \<and> HTTPStatus result = 0 \<and> ContentLength result = 0 \<and>
           ''NO-HTTP'' \<in> set (Tags result)))) \<and>
   (analyzeSubdomain patterns w options subdomain = None \<longleftrightarrow>
      lookupCNAME (netLookupCNAME w) subdomain = None)"
proof (intro conjI impI allI)
  show "snd (httpProbing w options subdomain info) =
     (if httpGet w (''https://'' @ subdomain) = None
      then [''https://'' @ subdomain, ''http://'' @ subdomain]
      else [''https://'' @ subdomain])"
    by (rule httpProbing_requests)
next
  assume "httpGet w (''https://'' @ subdomain) = None \<and> httpGet w (''http://'' @ subdomain) = None"
  then show "fst (httpProbing w options subdomain info) =
        info\<lparr>HTTPStatus := 0, Tags := Tags info @ [''NO-HTTP'']\<rparr>"
    by (simp add: httpProbing_both_fail)
next
  fix looked
  assume f: "httpGet w (''https://'' @ subdomain) = None \<and> httpGet w (''http://'' @ subdomain) = None"
    and l: "lookupCNAME (netLookupCNAME w) subdomain = Some looked"
  let ?p = "fst (httpProbing w options subdomain (newSubdomainInfo subdomain))"
  let ?r = "sizeTags (statusTags (cnameLookup patterns looked ?p))"
  have p: "?p = (newSubdomainInfo subdomain)\<lparr>HTTPStatus := 0,
      Tags := Tags (newSubdomainInfo subdomain) @ [''NO-HTTP'']\<rparr>"
    using f by (simp add: httpProbing_both_fail)
  have "analyzeSubdomain patterns w options subdomain = Some ?r"
    using l by (simp add: analyzeSubdomain_def Let_def)
  moreover have "Subdomain ?r = subdomain" "HTTPStatus ?r = 0" "ContentLength ?r = 0"
    by (simp_all add: p)
  moreover have "''NO-HTTP'' \<in> set (Tags ?p)" by (simp add: p)
  then have "''NO-HTTP'' \<in> set (Tags ?r)"
    using analysis_keeps_Tags[of ?p patterns looked] by blast
  ultimately show "\<exists>result. analyzeSubdomain patterns w options subdomain = Some result \<and>
           Subdomain result = subdomain \<and> HTTPStatus result = 0 \<and> ContentLength result = 0 \<and>
           ''NO-HTTP'' \<in> set (Tags result)"
    by blast
next
  show "analyzeSubdomain patterns w options subdomain = None \<longleftrightarrow>
      lookupCNAME (netLookupCNAME w) subdomain = None"
    by (rule analyzeSubdomain_None)
qed

text \<open>The theorem at a host that no web server answers for.\<close>

theorem httpProbing_fallback_witness:
  "snd (httpProbing azureWorld DefaultOptions ''app.example.com'' (newSubdomainInfo ''app.example.com'')) =
     [''https://app.example.com'', ''http://app.example.com''] \<and>
   httpGet azureWorld ''https://app.example.com'' = None \<and>
   httpGet azureWorld ''http://app.example.com'' = None \<and>
   lookupCNAME (netLookupCNAME azureWorld) ''app.example.com'' =
     Some (Inr [''app.azurewebsites.net'', ''waws.cloudapp.net'', ''waws.cloudapp.net'']) \<and>
   (\<exists>result. analyzeSubdomain cloudCnamePatterns azureWorld DefaultOptions ''app.example.com'' = Some result \<and>
      Subdomain result = ''app.example.com'' \<and> HTTPStatus result = 0 \<and> ContentLength result = 0 \<and>
      ''NO-HTTP'' \<in> set (Tags result))"
proof -
  have g: "httpGet azureWorld (''https://'' @ ''app.example.com'') = None"
    "httpGet azureWorld (''http://'' @ ''app.example.com'') = None"
    by (simp_all add: azureWorld_def)
  have l: "lookupCNAME (netLookupCNAME azureWorld) ''app.example.com'' =
     Some (Inr [''app.azurewebsites.net'', ''waws.cloudapp.net'', ''waws.cloudapp.net''])"
    by code_simp
  show ?thesis
    using httpProbing_fallback[of azureWorld DefaultOptions "''app.example.com''"
        "newSubdomainInfo ''app.example.com''" cloudCnamePatterns] g l
    by simp
qed

section \<open>Unreachable hosts outside the provider table\<close>

lemma cnameLoop_no_match:
  "\<forall>cname\<in>set cnames. \<not> matchString pattern cname \<Longrightarrow> cnameLoop pattern provider cnames info = info"
  by (induction cnames) simp_all

lemma patternLoop_no_match:
  "\<forall>(pattern, provider)\<in>set patterns. \<forall>cname\<in>set cnames. \<not> matchString pattern cname \<Longrightarrow>
   patternLoop patterns cnames info = info"
  by (induction patterns cnames info rule: patternLoop.induct) (simp_all add: cnameLoop_no_match)

text \<open>
  Claim C9, as the code has it: when the HTTPS request and the HTTP request both fail, the
  alias chain of the subdomain ends, and no name of the chain that the resolution returns
  matches a pattern of the provider table, \<open>analyzeSubdomain\<close> returns a record with status
  0, score exactly 1 and the tags \<^verbatim>\<open>["NO-HTTP"]\<close>. On an alias chain that does not end it
  returns nothing.
\<close>

theorem analyzeSubdomain_unreachable:
  assumes "httpGet w (''https://'' @ subdomain) = None"
    and "httpGet w (''http://'' @ subdomain) = None"
    and "chainEnds (netLookupCNAME w) subdomain"
    and "\<forall>cnames. lookupCNAME (netLookupCNAME w) subdomain = Some (Inr cnames) \<longrightarrow>
           (\<forall>(pattern, provider)\<in>set patterns. \<forall>cname\<in>set cnames. \<not> matchString pattern cname)"
  shows "\<exists>info. analyzeSubdomain patterns w options subdomain = Some info \<and>
           HTTPStatus info = 0 \<and> Score info = 1 \<and> Tags info = [''NO-HTTP'']"
proof -
  from assms(3) obtain looked where looked: "lookupCNAME (netLookupCNAME w) subdomain = Some looked"
    using chainEnds_returns by blast
  let ?p = "fst (httpProbing w options subdomain (newSubdomainInfo subdomain))"
  have p: "?p = (newSubdomainInfo subdomain)\<lparr>HTTPStatus := 0,
      Tags := Tags (newSubdomainInfo subdomain) @ [''NO-HTTP'']\<rparr>"
    using assms(1,2) by (simp add: httpProbing_both_fail)
  let ?c = "cnameLookup patterns looked ?p"
  have c: "HTTPStatus ?c = 0 \<and> ContentLength ?c = 0 \<and> Score ?c = 1 \<and> Tags ?c = [''NO-HTTP'']"
  proof (cases looked)
    case (Inl e)
    then show ?thesis by (simp add: cnameLookup_def p)
  next
    case (Inr cnames)
    with assms(4) looked
    have "patternLoop patterns cnames (?p\<lparr>CNAMEs := cnames\<rparr>) = ?p\<lparr>CNAMEs := cnames\<rparr>"
      by (intro patternLoop_no_match) simp
    with Inr show ?thesis by (simp add: cnameLookup_def p)
  qed
  have "analyzeSubdomain patterns w options subdomain = Some (sizeTags (statusTags ?c))"
    using looked by (simp add: analyzeSubdomain_def Let_def)
  moreover have "HTTPStatus (sizeTags (statusTags ?c)) = 0 \<and> Score (sizeTags (statusTags ?c)) = 1 \<and>
      Tags (sizeTags (statusTags ?c)) = [''NO-HTTP'']"
    using c by (simp add: statusTags_def sizeTags_def)
  ultimately show ?thesis by blast
qed

text \<open>The theorem at an unreachable host whose alias is no provider's name.\<close>

theorem analyzeSubdomain_unreachable_witness:
  "httpGet legacyWorld ''https://old.example.com'' = None \<and>
   httpGet legacyWorld ''http://old.example.com'' = None \<and>
   chainEnds (netLookupCNAME legacyWorld) ''old.example.com'' \<and>
   lookupCNAME (netLookupCNAME legacyWorld) ''old.example.com'' =
     Some (Inr [''legacy.example.org'', ''legacy.example.org'']) \<and>
   providerMatches cloudCnamePatterns [''legacy.example.org'', ''legacy.example.org''] = 0 \<and>
   (\<exists>info. analyzeSubdomain cloudCnamePatterns legacyWorld DefaultOptions ''old.example.com'' = Some info \<and>
      HTTPStatus info = 0 \<and> Score info = 1 \<and> Tags info = [''NO-HTTP''])"
proof -
  have g: "httpGet legacyWorld (''https://'' @ ''old.example.com'') = None"
    "httpGet legacyWorld (''http://'' @ ''old.example.com'') = None"
    by (simp_all add: legacyWorld_def)
  have t: "trimSuffix ''legacy.example.org.'' ''.'' = ''legacy.example.org''"
    by (simp add: trimSuffix_def)
  have e1: "netLookupCNAME legacyWorld ''legacy.example.org'' = Some ''legacy.example.org.''"
    by (simp add: legacyWorld_def)
  have e2: "netLookupCNAME legacyWorld ''old.example.com'' = Some ''legacy.example.org.''"
    by (simp add: legacyWorld_def)
  have c1: "chainEnds (netLookupCNAME legacyWorld) ''legacy.example.org''"
    by (rule chainEnds.ownName[of "netLookupCNAME legacyWorld" "''legacy.example.org''"
          "''legacy.example.org.''"]) (simp_all add: t e1)
  have c2: "chainEnds (netLookupCNAME legacyWorld) ''old.example.com''"
    by (rule chainEnds.nextHop[of "netLookupCNAME legacyWorld" "''old.example.com''"
          "''legacy.example.org.''"]) (simp_all add: t e2 c1)
  have l: "lookupCNAME (netLookupCNAME legacyWorld) ''old.example.com'' =
     Some (Inr [''legacy.example.org'', ''legacy.example.org''])"
    by code_simp
  have m: "providerMatches cloudCnamePatterns [''legacy.example.org'', ''legacy.example.org''] = 0"
    by code_simp
  have n: "list_all (\<lambda>(pattern, provider).
      list_all (\<lambda>cname. \<not> matchString pattern cname) [''legacy.example.org'', ''legacy.example.org''])
      cloudCnamePatterns"
    by code_simp
  then have n': "\<forall>cnames. lookupCNAME (netLookupCNAME legacyWorld) ''old.example.com'' = Some (Inr cnames) \<longrightarrow>
           (\<forall>(pattern, provider)\<in>set cloudCnamePatterns. \<forall>cname\<in>set cnames. \<not> matchString pattern cname)"
    unfolding l by (simp add: list_all_iff case_prod_beta)
  show ?thesis
    using analyzeSubdomain_unreachable[OF g c2 n', of DefaultOptions] g c2 l m by simp
qed

text \<open>
  On the cycle a \<rightarrow> b \<rightarrow> c \<rightarrow> a both requests fail and none of the three names matches a
  pattern of the table, and the analysis of \<^verbatim>\<open>a.example.com\<close> never returns.
\<close>

theorem analyzeSubdomain_cycle_no_result:
  "httpGet cycleWorld ''https://a.example.com'' = None \<and>
   httpGet cycleWorld ''http://a.example.com'' = None \<and>
   providerMatches cloudCnamePatterns [''a.example.com'', ''b.example.com'', ''c.example.com''] = 0 \<and>
   analyzeSubdomain cloudCnamePatterns cycleWorld DefaultOptions ''a.example.com'' = None"
proof -
  have "providerMatches cloudCnamePatterns [''a.example.com'', ''b.example.com'', ''c.example.com''] = 0"
    by code_simp
  moreover have "lookupCNAME (netLookupCNAME cycleWorld) ''a.example.com'' = None"
    by (simp add: cycleWorld_def lookupCNAME_dnsCycle)
  then have "analyzeSubdomain cloudCnamePatterns cycleWorld DefaultOptions ''a.example.com'' = None"
    by (simp add: analyzeSubdomain_None)
  ultimately show ?thesis by (simp add: cycleWorld_def)
qed

section \<open>One result for every subdomain\<close>















section \<open>The steps of the probe\<close>

subsection \<open>Substrings\<close>

lemma hasPrefix_iff: "hasPrefix s p \<longleftrightarrow> (\<exists>t. s = p @ t)"
  by (induction s p rule: hasPrefix.induct) auto

lemma contains_iff: "contains s substr \<longleftrightarrow> (\<exists>a b. s = a @ substr @ b)"
proof (induction s)
  case Nil
  show ?case by (cases substr) (auto simp: hasPrefix_iff)
next
  case (Cons c cs)
  show ?case
  proof
    assume "contains (c # cs) substr"
    then consider "hasPrefix (c # cs) substr" | "contains cs substr" by auto
    then show "\<exists>a b. c # cs = a @ substr @ b"
    proof cases
      case 1
      then obtain t where "c # cs = substr @ t" by (auto simp: hasPrefix_iff)
      then have "c # cs = [] @ substr @ t" by simp
      then show ?thesis by blast
    next
      case 2
      with Cons obtain a b where "cs = a @ substr @ b" by blast
      then have "c # cs = (c # a) @ substr @ b" by simp
      then show ?thesis by blast
    qed
  next
    assume "\<exists>a b. c # cs = a @ substr @ b"
    then obtain a b where ab: "c # cs = a @ substr @ b" by blast
    show "contains (c # cs) substr"
    proof (cases a)
      case Nil
      with ab have "hasPrefix (c # cs) substr" by (auto simp: hasPrefix_iff)
      then show ?thesis by simp
    next
      case (Cons a0 a')
      with ab have "cs = a' @ substr @ b" by simp
      with Cons.IH have "contains cs substr" by blast
      then show ?thesis by simp
    qed
  qed
qed

lemma contains_suffix_part: "contains s (x @ y) \<Longrightarrow> contains s y"
proof -
  assume "contains s (x @ y)"
  then obtain a b where "s = a @ (x @ y) @ b" by (auto simp: contains_iff)
  then have "s = (a @ x) @ y @ b" by simp
  then show ?thesis unfolding contains_iff by blast
qed

lemma contains_s3_amazonaws: "contains s ''s3.amazonaws.com'' \<Longrightarrow> contains s ''amazonaws.com''"
  using contains_suffix_part[of s "''s3.''" "''amazonaws.com''"] by simp

lemma contains_Nil_left [simp]: "contains [] (c # cs) = False"
  by simp

subsection \<open>Step 3: takeover\<close>

lemma contentPatternLoop_result:
  "contentPatternLoop provider resp body matches r =
     (if resp \<noteq> None \<and> list_ex (contains body) matches
      then r\<lparr>IsTakeover := True,
              Vulnerabilities := Vulnerabilities r @ [''Subdomain Takeover ('' @ provider @ '')''],
              Tags_probe := Tags_probe r @ [''TAKEOVER-CANDIDATE'', provider]\<rparr>
      else r)"
proof (cases resp)
  case None
  then show ?thesis by (induction matches) simp_all
next
  case (Some y)
  then show ?thesis by (induction matches) simp_all
qed

lemma cnamePatternLoop_result:
  "cnamePatternLoop provider resp body cnamePatterns matches r =
     (if takeoverHit (CNAME r) resp body (provider, cnamePatterns, matches)
      then r\<lparr>IsTakeover := True,
              Vulnerabilities := Vulnerabilities r @ [takeoverFinding (provider, cnamePatterns, matches)],
              Tags_probe := Tags_probe r @ [''TAKEOVER-CANDIDATE'', provider]\<rparr>
      else r)"
proof (cases resp)
  case None
  then show ?thesis
    by (induction cnamePatterns) (simp_all add: takeoverHit_def takeoverFinding_def contentPatternLoop_result)
next
  case (Some y)
  then show ?thesis
    by (induction cnamePatterns) (simp_all add: takeoverHit_def takeoverFinding_def contentPatternLoop_result)
qed

lemma providerLoop_result:
  "providerLoop signatures resp body r =
     r\<lparr>IsTakeover := IsTakeover r \<or> filter (takeoverHit (CNAME r) resp body) signatures \<noteq> [],
       Vulnerabilities := Vulnerabilities r @
         map takeoverFinding (filter (takeoverHit (CNAME r) resp body) signatures),
       Tags_probe := Tags_probe r @
         concat (map (\<lambda>signature. [''TAKEOVER-CANDIDATE'', fst signature])
           (filter (takeoverHit (CNAME r) resp body) signatures))\<rparr>"
proof (induction signatures resp body r rule: providerLoop.induct)
  case (1 resp body r)
  show ?case by simp
next
  case (2 provider cnamePatterns matches signatures resp body r)
  let ?r1 = "cnamePatternLoop provider resp body cnamePatterns matches r"
  have "providerLoop ((provider, cnamePatterns, matches) # signatures) resp body r =
        providerLoop signatures resp body ?r1"
    by simp
  also have "\<dots> = ?r1\<lparr>IsTakeover := IsTakeover ?r1 \<or> filter (takeoverHit (CNAME ?r1) resp body) signatures \<noteq> [],
       Vulnerabilities := Vulnerabilities ?r1 @
         map takeoverFinding (filter (takeoverHit (CNAME ?r1) resp body) signatures),
       Tags_probe := Tags_probe ?r1 @
         concat (map (\<lambda>signature. [''TAKEOVER-CANDIDATE'', fst signature])
           (filter (takeoverHit (CNAME ?r1) resp body) signatures))\<rparr>"
    by (rule 2)
  also have "\<dots> = r\<lparr>IsTakeover := IsTakeover r \<or>
         filter (takeoverHit (CNAME r) resp body) ((provider, cnamePatterns, matches) # signatures) \<noteq> [],
       Vulnerabilities := Vulnerabilities r @
         map takeoverFinding
           (filter (takeoverHit (CNAME r) resp body) ((provider, cnamePatterns, matches) # signatures)),
       Tags_probe := Tags_probe r @
         concat (map (\<lambda>signature. [''TAKEOVER-CANDIDATE'', fst signature])
           (filter (takeoverHit (CNAME r) resp body) ((provider, cnamePatterns, matches) # signatures)))\<rparr>"
    by (simp add: cnamePatternLoop_result)
  finally show ?case .
qed

lemma checkTakeover_result:
  "checkTakeover signatures resp body r =
     r\<lparr>IsTakeover := IsTakeover r \<or>
         (CNAME r \<noteq> [] \<and> filter (takeoverHit (CNAME r) resp body) signatures \<noteq> []),
       Vulnerabilities := Vulnerabilities r @
         (if CNAME r \<noteq> [] then map takeoverFinding (filter (takeoverHit (CNAME r) resp body) signatures)
          else []),
       Tags_probe := Tags_probe r @
         (if CNAME r \<noteq> []
          then concat (map (\<lambda>signature. [''TAKEOVER-CANDIDATE'', fst signature])
                 (filter (takeoverHit (CNAME r) resp body) signatures))
          else [])\<rparr>"
  by (simp add: checkTakeover_def providerLoop_result)

subsection \<open>Step 4: buckets\<close>

lemma checkS3_trigger:
  "(CNAME r \<noteq> [] \<and> (contains (CNAME r) ''s3.amazonaws.com'' \<or> contains (CNAME r) ''amazonaws.com'')) \<or>
     (resp \<noteq> None \<and> contains body ''<ListBucketResult'') \<longleftrightarrow>
   contains (CNAME r) ''amazonaws.com'' \<or> (resp \<noteq> None \<and> contains body ''<ListBucketResult'')"
proof -
  have "contains (CNAME r) ''amazonaws.com'' \<Longrightarrow> CNAME r \<noteq> []"
    by (cases "CNAME r") simp_all
  then show ?thesis
    using contains_s3_amazonaws[of "CNAME r"] by blast
qed

lemma checkS3_result:
  "checkS3 w resp body r =
     (if contains (CNAME r) ''amazonaws.com'' \<or> (resp \<noteq> None \<and> contains body ''<ListBucketResult'')
      then
        if contains body ''<ListBucketResult''
        then r\<lparr>S3Public := True,
                Vulnerabilities := Vulnerabilities r @ [''Public S3 Bucket''],
                Tags_probe := Tags_probe r @ [''PUBLIC-S3''],
                ExposedFiles := (case xmlContentsKeys w body of
                                   Some (key # keys) \<Rightarrow> take 5 (key # keys)
                                 | _ \<Rightarrow> ExposedFiles r)\<rparr>
        else if contains body ''AccessDenied''
        then r\<lparr>S3Private := True, Tags_probe := Tags_probe r @ [''PRIVATE-S3'']\<rparr>
        else if contains body ''NoSuchBucket''
        then r\<lparr>Vulnerabilities := Vulnerabilities r @ [''Unclaimed S3 Bucket''],
                Tags_probe := Tags_probe r @ [''UNCLAIMED-S3'']\<rparr>
        else r
      else r)"
  unfolding checkS3_def checkS3_trigger
  by (simp add: Let_def split: option.splits list.splits)

subsection \<open>Steps that only add findings\<close>

lemma grows_refl [simp]: "grows F r r"
  by (simp add: grows_def)

lemma grows_trans:
  assumes "grows F r r'" "grows F r' r''"
  shows "grows F r r''"
proof -
  from assms(1) obtain vs ts fs where 1: "Vulnerabilities r' = Vulnerabilities r @ vs" "list_all F vs"
    "Tags_probe r' = Tags_probe r @ ts" "ExposedFiles r' = ExposedFiles r @ fs"
    unfolding grows_def by blast
  from assms(2) obtain vs' ts' fs' where 2: "Vulnerabilities r'' = Vulnerabilities r' @ vs'"
    "list_all F vs'" "Tags_probe r'' = Tags_probe r' @ ts'" "ExposedFiles r'' = ExposedFiles r' @ fs'"
    unfolding grows_def by blast
  have "Vulnerabilities r'' = Vulnerabilities r @ (vs @ vs') \<and> list_all F (vs @ vs')"
    using 1 2 by simp
  moreover have "Tags_probe r'' = Tags_probe r @ (ts @ ts')" using 1 2 by simp
  moreover have "ExposedFiles r'' = ExposedFiles r @ (fs @ fs')" using 1 2 by simp
  moreover have "CNAME r'' = CNAME r \<and> IsTakeover r'' = IsTakeover r \<and> S3Public r'' = S3Public r \<and>
     S3Private r'' = S3Private r"
    using assms unfolding grows_def by simp
  ultimately show ?thesis unfolding grows_def by blast
qed

lemma grows_mono:
  assumes "grows F r r'" "\<And>v. F v \<Longrightarrow> G v"
  shows "grows G r r'"
proof -
  from assms(1) obtain vs where vs: "Vulnerabilities r' = Vulnerabilities r @ vs" "list_all F vs"
    unfolding grows_def by blast
  from vs(2) assms(2) have "list_all G vs" by (auto simp: list_all_iff)
  with vs(1) assms(1) show ?thesis unfolding grows_def by blast
qed

subsection \<open>Steps 5 and 6: files and redirects\<close>

lemma contentSigLoop_grows:
  "grows (\<lambda>v. hasPrefix v ''Exposed '') r (contentSigLoop path description fileBody sigs r)"
  by (induction sigs) (simp_all add: grows_def)

lemma contentSigLoop_length:
  "length (Vulnerabilities (contentSigLoop path description fileBody sigs r)) \<le>
     length (Vulnerabilities r) + 1"
  by (induction sigs) simp_all

lemma contentSigLoop_OpenRedirect [simp]:
  "OpenRedirect (contentSigLoop path description fileBody sigs r) = OpenRedirect r"
  by (induction sigs) simp_all

lemma checkSensitiveFiles_grows:
  "grows (\<lambda>v. hasPrefix v ''Exposed '') r (fst (checkSensitiveFiles w domain filePaths r))"
proof (induction w domain filePaths r rule: checkSensitiveFiles.induct)
  case (1 w domain result)
  show ?case by simp
next
  case (2 w domain path description contentSigs filePaths result)
  let ?url = "''https://'' @ domain @ path"
  show ?case
  proof (cases "length (Vulnerabilities result) \<ge> 5")
    case True
    then show ?thesis by simp
  next
    case budget: False
    show ?thesis
    proof (cases "newRequestOk w ?url")
      case False
      with budget 2(1)[OF budget refl] show ?thesis by simp
    next
      case ok: True
      show ?thesis
      proof (cases "httpGet w ?url")
        case None
        with budget ok 2(2)[OF budget refl _ None] show ?thesis
          by (simp add: Let_def split_beta)
      next
        case (Some fileResp)
        let ?r1 = "if respStatusCode fileResp = 200 \<and> \<not> respReadError fileResp
                     then contentSigLoop path description (take (5 * 1024) (respBody fileResp))
                            contentSigs result
                     else result"
        have "grows (\<lambda>v. hasPrefix v ''Exposed '') result ?r1"
          by (simp add: contentSigLoop_grows)
        moreover have "grows (\<lambda>v. hasPrefix v ''Exposed '') ?r1
            (fst (checkSensitiveFiles w domain filePaths ?r1))"
          using 2(3)[OF budget refl _ Some] ok by simp
        ultimately have "grows (\<lambda>v. hasPrefix v ''Exposed '') result
            (fst (checkSensitiveFiles w domain filePaths ?r1))"
          by (rule grows_trans)
        with budget ok Some show ?thesis
          by (simp add: Let_def split_beta)
      qed
    qed
  qed
qed

lemma checkSensitiveFiles_budget:
  "length (Vulnerabilities (fst (checkSensitiveFiles w domain filePaths r))) \<le>
     max 5 (length (Vulnerabilities r))"
proof (induction w domain filePaths r rule: checkSensitiveFiles.induct)
  case (1 w domain result)
  show ?case by simp
next
  case (2 w domain path description contentSigs filePaths result)
  let ?url = "''https://'' @ domain @ path"
  show ?case
  proof (cases "length (Vulnerabilities result) \<ge> 5")
    case True
    then show ?thesis by simp
  next
    case budget: False
    show ?thesis
    proof (cases "newRequestOk w ?url")
      case False
      with budget 2(1)[OF budget refl] show ?thesis by simp
    next
      case ok: True
      show ?thesis
      proof (cases "httpGet w ?url")
        case None
        with budget ok 2(2)[OF budget refl _ None] show ?thesis
          by (simp add: Let_def split_beta)
      next
        case (Some fileResp)
        let ?r1 = "if respStatusCode fileResp = 200 \<and> \<not> respReadError fileResp
                     then contentSigLoop path description (take (5 * 1024) (respBody fileResp))
                            contentSigs result
                     else result"
        have "length (Vulnerabilities ?r1) \<le> length (Vulnerabilities result) + 1"
          using contentSigLoop_length[of path description _ contentSigs result] by simp
        with budget have "length (Vulnerabilities ?r1) \<le> 5" by simp
        moreover have "length (Vulnerabilities (fst (checkSensitiveFiles w domain filePaths ?r1))) \<le>
            max 5 (length (Vulnerabilities ?r1))"
          using 2(3)[OF budget refl _ Some] ok by simp
        ultimately have "length (Vulnerabilities (fst (checkSensitiveFiles w domain filePaths ?r1))) \<le> 5"
          by simp
        with budget ok Some show ?thesis
          by (simp add: Let_def split_beta)
      qed
    qed
  qed
qed

lemma checkOpenRedirects_grows:
  "grows (\<lambda>v. v = ''Open Redirect'') r (fst (checkOpenRedirects w domain redirectPatterns r))"
proof (induction w domain redirectPatterns r rule: checkOpenRedirects.induct)
  case (1 w domain result)
  show ?case by simp
next
  case (2 w domain pathPattern param redirectPatterns result)
  let ?url = "''https://'' @ domain @ pathPattern @ ''?'' @ param @ ''=https://evil.com''"
  show ?case
  proof (cases "OpenRedirect result \<or> length (Vulnerabilities result) \<ge> 5")
    case True
    then show ?thesis by auto
  next
    case False
    then have found: "\<not> OpenRedirect result" and budget: "\<not> length (Vulnerabilities result) \<ge> 5"
      by simp_all
    show ?thesis
    proof (cases "newRequestOk w ?url")
      case False
      with found budget 2(1)[OF found budget refl] show ?thesis by simp
    next
      case ok: True
      show ?thesis
      proof (cases "httpGet w ?url")
        case None
        with found budget ok 2(2)[OF found budget refl _ None] show ?thesis
          by (simp add: Let_def split_beta)
      next
        case (Some redirectResp)
        let ?r1 = "if respStatusCode redirectResp \<ge> 300 \<and> respStatusCode redirectResp < 400 \<and>
                        contains (headerGet (respHeader redirectResp) ''Location'') ''evil.com''
                     then result\<lparr>OpenRedirect := True, RedirectURL := ?url,
                                  Vulnerabilities := Vulnerabilities result @ [''Open Redirect''],
                                  Tags_probe := Tags_probe result @ [''OPEN-REDIRECT'']\<rparr>
                     else result"
        have "grows (\<lambda>v. v = ''Open Redirect'') result ?r1"
          by (simp add: grows_def)
        moreover have "grows (\<lambda>v. v = ''Open Redirect'') ?r1
            (fst (checkOpenRedirects w domain redirectPatterns ?r1))"
          using 2(3)[OF found budget refl _ Some] ok by simp
        ultimately have "grows (\<lambda>v. v = ''Open Redirect'') result
            (fst (checkOpenRedirects w domain redirectPatterns ?r1))"
          by (rule grows_trans)
        moreover have "fst (checkOpenRedirects w domain ((pathPattern, param) # redirectPatterns) result) =
            fst (checkOpenRedirects w domain redirectPatterns ?r1)"
          using found budget ok Some by (simp add: Let_def split_beta)
        ultimately show ?thesis by (simp only:)
      qed
    qed
  qed
qed

lemma checkOpenRedirects_budget:
  "length (Vulnerabilities (fst (checkOpenRedirects w domain redirectPatterns r))) \<le>
     max 5 (length (Vulnerabilities r))"
proof (induction w domain redirectPatterns r rule: checkOpenRedirects.induct)
  case (1 w domain result)
  show ?case by simp
next
  case (2 w domain pathPattern param redirectPatterns result)
  let ?url = "''https://'' @ domain @ pathPattern @ ''?'' @ param @ ''=https://evil.com''"
  show ?case
  proof (cases "OpenRedirect result \<or> length (Vulnerabilities result) \<ge> 5")
    case True
    then show ?thesis by auto
  next
    case False
    then have found: "\<not> OpenRedirect result" and budget: "\<not> length (Vulnerabilities result) \<ge> 5"
      by simp_all
    show ?thesis
    proof (cases "newRequestOk w ?url")
      case False
      with found budget 2(1)[OF found budget refl] show ?thesis by simp
    next
      case ok: True
      show ?thesis
      proof (cases "httpGet w ?url")
        case None
        with found budget ok 2(2)[OF found budget refl _ None] show ?thesis
          by (simp add: Let_def split_beta)
      next
        case (Some redirectResp)
        let ?r1 = "if respStatusCode redirectResp \<ge> 300 \<and> respStatusCode redirectResp < 400 \<and>
                        contains (headerGet (respHeader redirectResp) ''Location'') ''evil.com''
                     then result\<lparr>OpenRedirect := True, RedirectURL := ?url,
                                  Vulnerabilities := Vulnerabilities result @ [''Open Redirect''],
                                  Tags_probe := Tags_probe result @ [''OPEN-REDIRECT'']\<rparr>
                     else result"
        have "length (Vulnerabilities ?r1) \<le> 5"
          using budget by simp
        moreover have "length (Vulnerabilities (fst (checkOpenRedirects w domain redirectPatterns ?r1))) \<le>
            max 5 (length (Vulnerabilities ?r1))"
          using 2(3)[OF found budget refl _ Some] ok by simp
        ultimately have "length (Vulnerabilities (fst (checkOpenRedirects w domain redirectPatterns ?r1))) \<le> 5"
          by simp
        moreover have "fst (checkOpenRedirects w domain ((pathPattern, param) # redirectPatterns) result) =
            fst (checkOpenRedirects w domain redirectPatterns ?r1)"
          using found budget ok Some by (simp add: Let_def split_beta)
        ultimately show ?thesis by simp
      qed
    qed
  qed
qed

lemma checkSensitiveFiles_skipped:
  "5 \<le> length (Vulnerabilities r) \<Longrightarrow> checkSensitiveFiles w domain filePaths r = (r, [])"
  by (cases filePaths) auto

lemma checkOpenRedirects_skipped:
  "5 \<le> length (Vulnerabilities r) \<Longrightarrow> checkOpenRedirects w domain redirectPatterns r = (r, [])"
  by (cases redirectPatterns) auto

subsection \<open>Steps 3 to 6 together\<close>

lemma laterSteps_grows:
  "grows laterFinding (checkS3 w resp body (checkTakeover signatures resp body r))
     (laterSteps signatures w domain resp body r)"
proof -
  let ?s = "checkS3 w resp body (checkTakeover signatures resp body r)"
  let ?f = "fst (checkSensitiveFiles w domain sensitiveFilePaths ?s)"
  have "grows laterFinding ?s ?f"
    by (rule grows_mono[OF checkSensitiveFiles_grows]) (simp add: laterFinding_def)
  moreover have "grows laterFinding ?f (fst (checkOpenRedirects w domain openRedirectPatterns ?f))"
    by (rule grows_mono[OF checkOpenRedirects_grows]) (simp add: laterFinding_def)
  ultimately show ?thesis
    unfolding laterSteps_def by (rule grows_trans)
qed

lemma laterSteps_budget:
  "length (Vulnerabilities (laterSteps signatures w domain resp body r)) \<le>
     max 5 (length (Vulnerabilities (checkS3 w resp body (checkTakeover signatures resp body r))))"
proof -
  let ?s = "checkS3 w resp body (checkTakeover signatures resp body r)"
  let ?f = "fst (checkSensitiveFiles w domain sensitiveFilePaths ?s)"
  have "length (Vulnerabilities (fst (checkOpenRedirects w domain openRedirectPatterns ?f))) \<le>
      max 5 (length (Vulnerabilities ?f))"
    by (rule checkOpenRedirects_budget)
  moreover have "length (Vulnerabilities ?f) \<le> max 5 (length (Vulnerabilities ?s))"
    by (rule checkSensitiveFiles_budget)
  ultimately show ?thesis
    unfolding laterSteps_def by simp
qed

lemma grows_count:
  assumes "grows F r r'" "\<not> F v"
  shows "count_list (Vulnerabilities r') v = count_list (Vulnerabilities r) v"
proof -
  from assms(1) obtain vs where vs: "Vulnerabilities r' = Vulnerabilities r @ vs" "list_all F vs"
    unfolding grows_def by blast
  from vs(2) assms(2) have "v \<notin> set vs" by (auto simp: list_all_iff)
  then have "count_list vs v = 0" by (simp add: count_list_0_iff)
  with vs(1) show ?thesis by simp
qed

lemma grows_Tags: "grows F r r' \<Longrightarrow> set (Tags_probe r) \<subseteq> set (Tags_probe r')"
  unfolding grows_def by auto

lemma initialRequest_fields:
  assumes "initialRequest w options domain r = Inr (r1, resp, body)"
  shows "CNAME r1 = CNAME r" "Vulnerabilities r1 = Vulnerabilities r" "Tags_probe r1 = Tags_probe r"
    "IsTakeover r1 = IsTakeover r" "S3Public r1 = S3Public r" "S3Private r1 = S3Private r"
    "ExposedFiles r1 = ExposedFiles r" "resp = None \<longrightarrow> body = []"
  using assms
  by (auto simp: initialRequest_def split: if_splits option.splits)

lemma initialRequest_early:
  "initialRequest w options domain r = Inl r' \<Longrightarrow> r' = r"
  by (auto simp: initialRequest_def split: if_splits option.splits)

lemma getCNAME_fields [simp]:
  "Vulnerabilities (getCNAME looked r) = Vulnerabilities r"
  "Tags_probe (getCNAME looked r) = Tags_probe r"
  "IsTakeover (getCNAME looked r) = IsTakeover r"
  "S3Public (getCNAME looked r) = S3Public r"
  "S3Private (getCNAME looked r) = S3Private r"
  "ExposedFiles (getCNAME looked r) = ExposedFiles r"
  by (simp_all add: getCNAME_def split: sum.splits list.splits)

lemma newProbeResult_fields [simp]:
  "CNAME (newProbeResult domain) = []"
  "Vulnerabilities (newProbeResult domain) = []"
  "Tags_probe (newProbeResult domain) = []"
  "IsTakeover (newProbeResult domain) = False"
  "S3Public (newProbeResult domain) = False"
  "S3Private (newProbeResult domain) = False"
  "ExposedFiles (newProbeResult domain) = []"
  by (simp_all add: newProbeResult_def)

lemma distinct_count_list: "distinct xs \<Longrightarrow> x \<in> set xs \<Longrightarrow> count_list xs x = 1"
  by (induction xs) (auto simp: count_list_0_iff)

lemma distinct_takeoverFinding:
  "distinct (map fst signatures) \<Longrightarrow> distinct (map takeoverFinding signatures)"
  by (induction signatures) (auto simp: takeoverFinding_def)

lemma takeoverFinding_not_later [simp]: "\<not> laterFinding (takeoverFinding signature)"
  by (simp add: laterFinding_def takeoverFinding_def)

lemma checkS3_takeover_count:
  "count_list (Vulnerabilities (checkS3 w resp body r)) (takeoverFinding signature) =
     count_list (Vulnerabilities r) (takeoverFinding signature)"
  by (simp add: checkS3_result takeoverFinding_def)

lemma checkS3_keeps:
  "CNAME (checkS3 w resp body r) = CNAME r"
  "IsTakeover (checkS3 w resp body r) = IsTakeover r"
  "set (Tags_probe r) \<subseteq> set (Tags_probe (checkS3 w resp body r))"
  by (auto simp: checkS3_result)

lemma probeDomain_later:
  assumes "initialRequest w options domain (newProbeResult domain) = Inr (result1, resp, body)"
    and "lookupCNAME (netLookupCNAME w) domain = Some looked"
  shows "probeDomain signatures w domain options =
           Some (laterSteps signatures w domain resp body (getCNAME looked result1))"
  using assms by (simp add: probeDomain_def)

section \<open>Takeover findings\<close>

text \<open>
  Claim C6, as the code has it: the probe keeps the first name of the alias chain only. When
  an answer was received, the first name of the chain contains one of a provider's CNAME
  strings and the first 10 KiB of the body contain one of its fingerprints, the result is
  flagged as a takeover, carries the finding of that provider exactly once (the providers of
  the table being distinct) and the tags \<^verbatim>\<open>TAKEOVER-CANDIDATE\<close> and the provider's name.
\<close>

theorem probeDomain_takeover:
  assumes "distinct (map fst signatures)"
    and "(provider, cnamePatterns, matches) \<in> set signatures"
    and "initialRequest w options domain (newProbeResult domain) = Inr (result1, Some resp, body)"
    and "lookupCNAME (netLookupCNAME w) domain = Some (Inr (cname # cnames))"
    and "cname \<noteq> []"
    and "\<exists>cnamePattern\<in>set cnamePatterns. contains cname cnamePattern"
    and "\<exists>contentPattern\<in>set matches. contains body contentPattern"
  shows "\<exists>result. probeDomain signatures w domain options = Some result \<and>
           CNAME result = cname \<and> IsTakeover result \<and>
           count_list (Vulnerabilities result) (''Subdomain Takeover ('' @ provider @ '')'') = 1 \<and>
           ''TAKEOVER-CANDIDATE'' \<in> set (Tags_probe result) \<and> provider \<in> set (Tags_probe result)"
proof -
  let ?sig = "(provider, cnamePatterns, matches)"
  let ?r2 = "getCNAME (Inr (cname # cnames)) result1"
  let ?rT = "checkTakeover signatures (Some resp) body ?r2"
  let ?rS = "checkS3 w (Some resp) body ?rT"
  let ?final = "laterSteps signatures w domain (Some resp) body ?r2"
  let ?hits = "filter (takeoverHit cname (Some resp) body) signatures"
  note i = initialRequest_fields[OF assms(3)]
  have r2: "CNAME ?r2 = cname" "Vulnerabilities ?r2 = []" "Tags_probe ?r2 = []" "\<not> IsTakeover ?r2"
    by (simp_all add: i) (simp add: getCNAME_def)
  have hit: "takeoverHit cname (Some resp) body ?sig"
    using assms(6,7) by (simp add: takeoverHit_def list_ex_iff)
  with assms(2) have mem: "?sig \<in> set ?hits" by simp
  have rT: "Vulnerabilities ?rT = map takeoverFinding ?hits" "IsTakeover ?rT" "CNAME ?rT = cname"
    "Tags_probe ?rT = concat (map (\<lambda>signature. [''TAKEOVER-CANDIDATE'', fst signature]) ?hits)"
    using mem assms(5) unfolding checkTakeover_result r2 by (auto simp: filter_empty_conv r2)
  have "distinct (map takeoverFinding ?hits)"
    using assms(1) by (intro distinct_map_filter distinct_takeoverFinding)
  moreover have "takeoverFinding ?sig \<in> set (map takeoverFinding ?hits)"
    using mem by (simp only: set_map) (rule imageI)
  ultimately have cT: "count_list (Vulnerabilities ?rT) (takeoverFinding ?sig) = 1"
    unfolding rT(1) by (rule distinct_count_list)
  have tT: "''TAKEOVER-CANDIDATE'' \<in> set (Tags_probe ?rT)" "provider \<in> set (Tags_probe ?rT)"
    using mem unfolding rT(4) by force+
  have g: "grows laterFinding ?rS ?final"
    by (rule laterSteps_grows)
  have "count_list (Vulnerabilities ?final) (takeoverFinding ?sig) =
        count_list (Vulnerabilities ?rS) (takeoverFinding ?sig)"
    by (rule grows_count[OF g]) simp
  then have c: "count_list (Vulnerabilities ?final) (takeoverFinding ?sig) = 1"
    by (simp add: checkS3_takeover_count cT)
  have k: "CNAME ?final = cname" "IsTakeover ?final"
    using g rT(2,3) by (simp_all add: grows_def checkS3_keeps)
  have t: "''TAKEOVER-CANDIDATE'' \<in> set (Tags_probe ?final)" "provider \<in> set (Tags_probe ?final)"
    using tT grows_Tags[OF g] checkS3_keeps(3)[of ?rT w "Some resp" body] by blast+
  have "probeDomain signatures w domain options = Some ?final"
    using assms(3,4) by (rule probeDomain_later)
  with c k t show ?thesis
    by (simp add: takeoverFinding_def)
qed

text \<open>
  The theorem at the Heroku entry of the table and a host whose alias is a Heroku name and
  whose body is "No such app".
\<close>

theorem probeDomain_takeover_witness:
  "distinct (map fst takeoversignatures) \<and>
   (''Heroku'', [''herokuapp.com'', ''herokuapp''],
      [''No such app'', ''Heroku | No such app'', ''herokucdn.com/error-pages/no-such-app.html''])
     \<in> set takeoversignatures \<and>
   initialRequest herokuWorld DefaultProbeOptions ''dead.example.com''
        (newProbeResult ''dead.example.com'') =
      Inr ((newProbeResult ''dead.example.com'')\<lparr>HTTPStatus_probe := 404, ContentLength_probe := 11\<rparr>,
        Some herokuResp, ''No such app'') \<and>
   lookupCNAME (netLookupCNAME herokuWorld) ''dead.example.com'' =
     Some (Inr [''dead.herokuapp.com'', ''dead.herokuapp.com'']) \<and>
   contains ''dead.herokuapp.com'' ''herokuapp.com'' \<and> contains ''No such app'' ''No such app'' \<and>
   (\<exists>result. probeDomain takeoversignatures herokuWorld ''dead.example.com'' DefaultProbeOptions =
        Some result \<and>
      CNAME result = ''dead.herokuapp.com'' \<and> IsTakeover result \<and>
      count_list (Vulnerabilities result) ''Subdomain Takeover (Heroku)'' = 1 \<and>
      ''TAKEOVER-CANDIDATE'' \<in> set (Tags_probe result) \<and> ''Heroku'' \<in> set (Tags_probe result))"
proof -
  have d: "distinct (map fst takeoversignatures)" by code_simp
  have m: "(''Heroku'', [''herokuapp.com'', ''herokuapp''],
      [''No such app'', ''Heroku | No such app'', ''herokucdn.com/error-pages/no-such-app.html''])
     \<in> set takeoversignatures"
    by (simp add: takeoversignatures_def)
  have i: "initialRequest herokuWorld DefaultProbeOptions ''dead.example.com''
        (newProbeResult ''dead.example.com'') =
      Inr ((newProbeResult ''dead.example.com'')\<lparr>HTTPStatus_probe := 404, ContentLength_probe := 11\<rparr>,
        Some herokuResp, ''No such app'')"
    by code_simp
  have l: "lookupCNAME (netLookupCNAME herokuWorld) ''dead.example.com'' =
     Some (Inr [''dead.herokuapp.com'', ''dead.herokuapp.com''])"
    by code_simp
  have c1: "contains ''dead.herokuapp.com'' ''herokuapp.com''" by code_simp
  have c2: "contains ''No such app'' ''No such app''" by code_simp
  have c1': "\<exists>cnamePattern\<in>set [''herokuapp.com'', ''herokuapp'']. contains ''dead.herokuapp.com'' cnamePattern"
    using c1 by simp
  have c2': "\<exists>contentPattern\<in>set [''No such app'', ''Heroku | No such app'',
      ''herokucdn.com/error-pages/no-such-app.html'']. contains ''No such app'' contentPattern"
    using c2 by simp
  from probeDomain_takeover[OF d m i l _ c1' c2'] d m i l c1 c2 show ?thesis
    by simp
qed

text \<open>
  A matching name further down the chain is not looked at: here the second name of the chain
  is a Heroku name and the body is "No such app", and the probe records nothing.
\<close>

theorem probeDomain_second_hop:
  "lookupCNAME (netLookupCNAME hopWorld) ''www.example.com'' =
     Some (Inr [''edge.example.net'', ''dead.herokuapp.com'', ''dead.herokuapp.com'']) \<and>
   contains ''dead.herokuapp.com'' ''herokuapp.com'' \<and>
   map_option (\<lambda>result. (CNAME result, HTTPStatus_probe result, IsTakeover result,
       Vulnerabilities result, Tags_probe result))
     (probeDomain takeoversignatures hopWorld ''www.example.com'' DefaultProbeOptions) =
     Some (''edge.example.net'', 404, False, [], [])"
proof -
  have i: "initialRequest hopWorld DefaultProbeOptions ''www.example.com''
        (newProbeResult ''www.example.com'') =
      Inr ((newProbeResult ''www.example.com'')\<lparr>HTTPStatus_probe := 404, ContentLength_probe := 11\<rparr>,
        Some herokuResp, ''No such app'')"
    by code_simp
  have l: "lookupCNAME (netLookupCNAME hopWorld) ''www.example.com'' =
     Some (Inr [''edge.example.net'', ''dead.herokuapp.com'', ''dead.herokuapp.com''])"
    by code_simp
  have c: "contains ''dead.herokuapp.com'' ''herokuapp.com''" by code_simp
  have g: "getCNAME (Inr [''edge.example.net'', ''dead.herokuapp.com'', ''dead.herokuapp.com''])
        ((newProbeResult ''www.example.com'')\<lparr>HTTPStatus_probe := 404, ContentLength_probe := 11\<rparr>) =
      (newProbeResult ''www.example.com'')\<lparr>HTTPStatus_probe := 404, ContentLength_probe := 11,
        CNAME := ''edge.example.net''\<rparr>"
    by (simp add: getCNAME_def)
  have s: "(\<lambda>result. (CNAME result, HTTPStatus_probe result, IsTakeover result,
       Vulnerabilities result, Tags_probe result))
      (laterSteps takeoversignatures hopWorld ''www.example.com'' (Some herokuResp) ''No such app''
        ((newProbeResult ''www.example.com'')\<lparr>HTTPStatus_probe := 404, ContentLength_probe := 11,
           CNAME := ''edge.example.net''\<rparr>)) =
      (''edge.example.net'', 404, False, [], [])"
    by code_simp
  show ?thesis
    using l c s by (simp add: probeDomain_later[OF i l] g)
qed

section \<open>The budget of findings\<close>

lemma checkTakeover_length:
  "length (Vulnerabilities (checkTakeover signatures resp body r)) \<le>
     length (Vulnerabilities r) + length signatures"
  by (simp add: checkTakeover_result)

lemma checkS3_length:
  "length (Vulnerabilities (checkS3 w resp body r)) \<le> length (Vulnerabilities r) + 1"
  by (simp add: checkS3_result)

lemma probeDomain_budget:
  assumes "probeDomain signatures w domain options = Some final"
  shows "length (Vulnerabilities final) \<le> max 5 (length signatures + 1)"
proof (cases "initialRequest w options domain (newProbeResult domain)")
  case (Inl early)
  then have "early = newProbeResult domain" by (rule initialRequest_early)
  with Inl assms have "final = newProbeResult domain" by (simp add: probeDomain_def)
  then have "Vulnerabilities final = []" by simp
  then show ?thesis by simp
next
  case (Inr rest)
  obtain result1 resp body where rest: "rest = (result1, resp, body)" by (cases rest)
  with Inr have i: "initialRequest w options domain (newProbeResult domain) = Inr (result1, resp, body)"
    by simp
  from assms i obtain looked where final:
    "final = laterSteps signatures w domain resp body (getCNAME looked result1)"
    by (auto simp: probeDomain_def bind_eq_Some_conv)
  let ?r2 = "getCNAME looked result1"
  have "Vulnerabilities ?r2 = []"
    by (simp add: initialRequest_fields(2)[OF i])
  then have "length (Vulnerabilities (checkTakeover signatures resp body ?r2)) \<le> length signatures"
    using checkTakeover_length[of signatures resp body ?r2] by simp
  then have "length (Vulnerabilities (checkS3 w resp body (checkTakeover signatures resp body ?r2))) \<le>
      length signatures + 1"
    using checkS3_length[of w resp body "checkTakeover signatures resp body ?r2"] by simp
  with laterSteps_budget[of signatures w domain resp body ?r2] show ?thesis
    unfolding final by simp
qed

lemma crowded_probe:
  "probeDomain takeoversignatures crowdedWorld ''x.example.com'' DefaultProbeOptions =
     Some (laterSteps takeoversignatures crowdedWorld ''x.example.com'' (Some crowdedResp)
       (respBody crowdedResp)
       ((newProbeResult ''x.example.com'')\<lparr>HTTPStatus_probe := 404, ContentLength_probe := - 1,
          CNAME := ''x.herokuapp.com.github.io.fastly.net.ghost.io.surge.sh''\<rparr>))"
proof -
  have i: "initialRequest crowdedWorld DefaultProbeOptions ''x.example.com''
        (newProbeResult ''x.example.com'') =
      Inr ((newProbeResult ''x.example.com'')\<lparr>HTTPStatus_probe := 404, ContentLength_probe := - 1\<rparr>,
        Some crowdedResp, respBody crowdedResp)"
    by code_simp
  have l: "lookupCNAME (netLookupCNAME crowdedWorld) ''x.example.com'' =
     Some (Inr [''x.herokuapp.com.github.io.fastly.net.ghost.io.surge.sh'',
       ''x.herokuapp.com.github.io.fastly.net.ghost.io.surge.sh''])"
    by code_simp
  show ?thesis
    by (simp add: probeDomain_later[OF i l] getCNAME_def)
qed

text \<open>
  Claim C7, as the code has it: only the scan for sensitive files and the scan for open
  redirects look at the number of findings, before every request. With five findings or
  more recorded they send no request and leave the record as it is, and neither takes the
  number of findings beyond five when it was below. The takeover step and the bucket step do
  not look at it: a host ends with at most as many findings as the larger of five and the
  number of providers plus one.
\<close>

theorem finding_budget:
  "(5 \<le> length (Vulnerabilities r) \<longrightarrow>
      checkSensitiveFiles w domain filePaths r = (r, []) \<and>
      checkOpenRedirects w domain redirectPatterns r = (r, [])) \<and>
   length (Vulnerabilities (fst (checkSensitiveFiles w domain filePaths r))) \<le>
     max 5 (length (Vulnerabilities r)) \<and>
   length (Vulnerabilities (fst (checkOpenRedirects w domain redirectPatterns r))) \<le>
     max 5 (length (Vulnerabilities r)) \<and>
   (probeDomain signatures w domain options = Some final \<longrightarrow>
      length (Vulnerabilities final) \<le> max 5 (length signatures + 1))"
proof (intro conjI impI)
  assume "5 \<le> length (Vulnerabilities r)"
  then show "checkSensitiveFiles w domain filePaths r = (r, [])"
    by (rule checkSensitiveFiles_skipped)
next
  assume "5 \<le> length (Vulnerabilities r)"
  then show "checkOpenRedirects w domain redirectPatterns r = (r, [])"
    by (rule checkOpenRedirects_skipped)
next
  show "length (Vulnerabilities (fst (checkSensitiveFiles w domain filePaths r))) \<le>
     max 5 (length (Vulnerabilities r))"
    by (rule checkSensitiveFiles_budget)
next
  show "length (Vulnerabilities (fst (checkOpenRedirects w domain redirectPatterns r))) \<le>
     max 5 (length (Vulnerabilities r))"
    by (rule checkOpenRedirects_budget)
next
  assume "probeDomain signatures w domain options = Some final"
  then show "length (Vulnerabilities final) \<le> max 5 (length signatures + 1)"
    by (rule probeDomain_budget)
qed

text \<open>The theorem at a record with five findings and at the host of \<open>crowdedWorld\<close>.\<close>

theorem finding_budget_witness:
  "5 \<le> length (Vulnerabilities fullResult) \<and>
   checkSensitiveFiles crowdedWorld ''x.example.com'' sensitiveFilePaths fullResult = (fullResult, []) \<and>
   checkOpenRedirects crowdedWorld ''x.example.com'' openRedirectPatterns fullResult = (fullResult, []) \<and>
   (\<exists>final. probeDomain takeoversignatures crowdedWorld ''x.example.com'' DefaultProbeOptions =
        Some final \<and>
      length (Vulnerabilities final) \<le> max 5 (length takeoversignatures + 1))"
proof -
  have f: "5 \<le> length (Vulnerabilities fullResult)" by (simp add: fullResult_def)
  from crowded_probe obtain final where
    p: "probeDomain takeoversignatures crowdedWorld ''x.example.com'' DefaultProbeOptions = Some final"
    by blast
  from finding_budget[of fullResult crowdedWorld "''x.example.com''" sensitiveFilePaths
      openRedirectPatterns takeoversignatures DefaultProbeOptions final] f p
  show ?thesis by blast
qed

text \<open>
  Six findings: the takeover step records five, and the bucket step, which comes later,
  still runs and records the sixth.
\<close>

theorem probeDomain_six_findings:
  "map_option Vulnerabilities
     (probeDomain takeoversignatures crowdedWorld ''x.example.com'' DefaultProbeOptions) =
   Some [''Subdomain Takeover (Heroku)'', ''Subdomain Takeover (GitHub)'',
     ''Subdomain Takeover (Fastly)'', ''Subdomain Takeover (Ghost)'',
     ''Subdomain Takeover (Surge.sh)'', ''Public S3 Bucket'']"
proof -
  have "Vulnerabilities (laterSteps takeoversignatures crowdedWorld ''x.example.com'' (Some crowdedResp)
       (respBody crowdedResp)
       ((newProbeResult ''x.example.com'')\<lparr>HTTPStatus_probe := 404, ContentLength_probe := - 1,
          CNAME := ''x.herokuapp.com.github.io.fastly.net.ghost.io.surge.sh''\<rparr>)) =
     [''Subdomain Takeover (Heroku)'', ''Subdomain Takeover (GitHub)'',
     ''Subdomain Takeover (Fastly)'', ''Subdomain Takeover (Ghost)'',
     ''Subdomain Takeover (Surge.sh)'', ''Public S3 Bucket'']"
    by code_simp
  then show ?thesis by (simp add: crowded_probe)
qed

section \<open>Buckets\<close>


lemma bucket_not_later [simp]:
  "\<not> laterFinding ''Public S3 Bucket''" "\<not> laterFinding ''Unclaimed S3 Bucket''"
  by (simp_all add: laterFinding_def)










end
